theory Spec2Isabelle
  imports Complex_Main "HOL-Library.Word" "HOL-Library.While_Combinator"
begin

unbundle bit_operations_syntax

section \<open>Engine data model (engine/src/types.ts)\<close>

datatype Dir = N | E | S | W

datatype EdgeType = Wall | Open | DoorLocked | DoorUnlocked | LeverSecret

datatype MoveDir = Abs Dir | F | B

datatype EdgeQueryPurpose = Movement | Visibility | Minimap

record PlayerState =
  pl_levelId :: int
  pl_x :: int
  pl_y :: int
  pl_face :: Dir
  pl_hp :: int

record CooldownState =
  moveReadyAtMs :: int
  turnReadyAtMs :: int

record EdgeOverride =
  edgeType :: EdgeType
  lockDifficulty :: "int option"
  keyMonsterEntityId :: "string option"
  defaultStateOnReset :: bool

text \<open>
  The engine sees the overlay through \<^verbatim>\<open>WorldOverlayProvider.getEdgeOverride\<close>: a
  query that answers an override or null. The lazy-overlay engine passes a purpose, the
  generator engine does not.
\<close>

type_synonym OverlayRead = "int \<Rightarrow> int \<Rightarrow> int \<Rightarrow> Dir \<Rightarrow> EdgeQueryPurpose \<Rightarrow> EdgeOverride option"
type_synonym OverlayReadGen = "int \<Rightarrow> int \<Rightarrow> int \<Rightarrow> Dir \<Rightarrow> EdgeOverride option"

text \<open>A call of \<^verbatim>\<open>DiscoveryProvider.markDiscovered(levelId, x, y, nowMs)\<close>.\<close>

type_synonym DiscoveryCall = "int \<times> int \<times> int \<times> int"

record MoveResult =
  r_ok :: bool
  r_reason :: "string option"
  r_player :: "PlayerState option"

section \<open>Grid helpers (engine/src/world.ts)\<close>

fun step :: "int \<Rightarrow> int \<Rightarrow> Dir \<Rightarrow> int \<times> int" where
  "step x y N = (x, y - 1)"
| "step x y S = (x, y + 1)"
| "step x y E = (x + 1, y)"
| "step x y W = (x - 1, y)"

fun oppositeOf :: "Dir \<Rightarrow> Dir" where
  "oppositeOf N = S"
| "oppositeOf S = N"
| "oppositeOf E = W"
| "oppositeOf W = E"

fun moveDirToAbs :: "Dir \<Rightarrow> MoveDir \<Rightarrow> Dir" where
  "moveDirToAbs face F = face"
| "moveDirToAbs face B = oppositeOf face"
| "moveDirToAbs face (Abs d) = d"

definition traversable :: "EdgeType \<Rightarrow> bool" where
  "traversable e = (e = Open \<or> e = DoorUnlocked \<or> e = LeverSecret)"

section \<open>The lazy-overlay engine (world.ts, variant with purposes and relative moves)\<close>

definition edgeType_lazy :: "OverlayRead \<Rightarrow> int \<Rightarrow> int \<Rightarrow> int \<Rightarrow> Dir \<Rightarrow> EdgeQueryPurpose \<Rightarrow> EdgeType" where
  "edgeType_lazy ov levelId x y dir purpose =
     (case ov levelId x y dir purpose of
        Some ovr \<Rightarrow> edgeType ovr
      | None \<Rightarrow> Wall)"

definition canTraverseAbs_lazy :: "OverlayRead \<Rightarrow> int \<Rightarrow> int \<Rightarrow> int \<Rightarrow> Dir \<Rightarrow> bool" where
  "canTraverseAbs_lazy ov levelId x y absDir =
     traversable (edgeType_lazy ov levelId x y absDir Movement)"

definition canTraverse_lazy :: "OverlayRead \<Rightarrow> int \<Rightarrow> int \<Rightarrow> int \<Rightarrow> Dir \<Rightarrow> MoveDir \<Rightarrow> bool" where
  "canTraverse_lazy ov levelId x y face moveDir =
     canTraverseAbs_lazy ov levelId x y (moveDirToAbs face moveDir)"

text \<open>
  \<^verbatim>\<open>move(player, cooldowns, moveDir)\<close>: \<open>now\<close> is the value of \<^verbatim>\<open>this.time.nowMs()\<close>;
  the second component lists the calls of \<^verbatim>\<open>markDiscovered\<close> the call performs.
\<close>

definition move_lazy ::
  "OverlayRead \<Rightarrow> int \<Rightarrow> PlayerState \<Rightarrow> CooldownState \<Rightarrow> MoveDir \<Rightarrow> MoveResult \<times> DiscoveryCall list" where
  "move_lazy ov now player cooldowns moveDir =
     (if now < moveReadyAtMs cooldowns
      then (\<lparr>r_ok = False, r_reason = Some ''move_cooldown'', r_player = None\<rparr>, [])
      else
        let absDir = moveDirToAbs (pl_face player) moveDir in
        if \<not> canTraverseAbs_lazy ov (pl_levelId player) (pl_x player) (pl_y player) absDir
        then (\<lparr>r_ok = False, r_reason = Some ''blocked'', r_player = None\<rparr>, [])
        else
          let (nx, ny) = step (pl_x player) (pl_y player) absDir;
              next = player\<lparr>pl_x := nx, pl_y := ny\<rparr>
          in (\<lparr>r_ok = True, r_reason = None, r_player = Some next\<rparr>,
              [(pl_levelId next, pl_x next, pl_y next, now)]))"

definition turn :: "int \<Rightarrow> PlayerState \<Rightarrow> CooldownState \<Rightarrow> Dir \<Rightarrow> MoveResult" where
  "turn now player cooldowns face =
     (if now < turnReadyAtMs cooldowns
      then \<lparr>r_ok = False, r_reason = Some ''turn_cooldown'', r_player = None\<rparr>
      else \<lparr>r_ok = True, r_reason = None, r_player = Some (player\<lparr>pl_face := face\<rparr>)\<rparr>)"

section \<open>Deterministic PRNG and seed mixer (engine/src/prng.ts)\<close>

type_synonym u32 = "32 word"

text \<open>
  The state of \<^verbatim>\<open>XorShift32\<close> is a 32-bit integer. The constructor keeps
  \<^verbatim>\<open>(seed | 0) || 0x9e3779b9\<close>.
\<close>

definition XorShift32_new :: "int \<Rightarrow> u32" where
  "XorShift32_new seed = (let s = (word_of_int seed :: u32) in if s = 0 then 0x9e3779b9 else s)"

text \<open>\<^verbatim>\<open>nextU32\<close> answers the value and the new state.\<close>

definition nextU32 :: "u32 \<Rightarrow> u32 \<times> u32" where
  "nextU32 s =
     (let x1 = s XOR push_bit 13 s;
          x2 = x1 XOR drop_bit 17 x1;
          x3 = x2 XOR push_bit 5 x2
      in (x3, x3))"

text \<open>
  \<^verbatim>\<open>float01\<close> is \<^verbatim>\<open>nextU32() / 0xffffffff\<close>. The model keeps the numerator \<open>k\<close>
  of the fraction \<open>k / 4294967295\<close>; \<open>frac_lt k num den\<close> is the comparison
  \<^verbatim>\<open>k / 0xffffffff < num / den\<close> on exact fractions. For the decimal constants of the
  sources the IEEE quotient and literal compare the same way: the two sides are equal
  as fractions or differ by more than \<open>10\<^sup>-\<^sup>1\<^sup>2\<close>.
\<close>

definition float01 :: "u32 \<Rightarrow> nat \<times> u32" where
  "float01 s = (let (v, s') = nextU32 s in (unat v, s'))"

definition frac_lt :: "nat \<Rightarrow> nat \<Rightarrow> nat \<Rightarrow> bool" where
  "frac_lt k num den = (k * den < num * 4294967295)"

text \<open>\<^verbatim>\<open>int(min, max)\<close>: no draw when \<^verbatim>\<open>!(max > min)\<close>.\<close>

definition rng_int :: "u32 \<Rightarrow> int \<Rightarrow> int \<Rightarrow> int \<times> u32" where
  "rng_int s minInclusive maxExclusive =
     (if \<not> (maxExclusive > minInclusive) then (minInclusive, s)
      else let span = maxExclusive - minInclusive;
               (v, s') = nextU32 s
           in (minInclusive + uint v mod span, s'))"

text \<open>
  \<^verbatim>\<open>shuffleInPlace\<close>: \<open>shuffle_from i\<close> runs the loop from index \<open>i\<close> down to 1.
\<close>

fun shuffle_from :: "nat \<Rightarrow> 'a list \<Rightarrow> u32 \<Rightarrow> 'a list \<times> u32" where
  "shuffle_from 0 arr s = (arr, s)"
| "shuffle_from (Suc i) arr s =
     (let (j, s') = rng_int s 0 (int (Suc i) + 1);
          tmp = arr ! Suc i;
          arr1 = arr[Suc i := arr ! nat j];
          arr2 = arr1[nat j := tmp]
      in shuffle_from i arr2 s')"

definition shuffleInPlace :: "'a list \<Rightarrow> u32 \<Rightarrow> 'a list \<times> u32" where
  "shuffleInPlace arr s = shuffle_from (length arr - 1) arr s"

definition mixU32 :: "u32 \<Rightarrow> int \<Rightarrow> u32" where
  "mixU32 h v = (h XOR word_of_int v) * 16777619"

definition mixLabel :: "u32 \<Rightarrow> string \<Rightarrow> u32" where
  "mixLabel h label = fold (\<lambda>c h'. (h' XOR (of_nat (of_char c) AND 0xff)) * 16777619) label h"

definition avalanche :: "u32 \<Rightarrow> u32" where
  "avalanche h =
     (let h1 = h XOR drop_bit 16 h;
          h2 = h1 * 0x7feb352d;
          h3 = h2 XOR drop_bit 15 h2;
          h4 = h3 * 0x846ca68b
      in h4 XOR drop_bit 16 h4)"

definition hashSeed :: "int \<Rightarrow> int \<Rightarrow> int \<Rightarrow> int \<Rightarrow> string \<Rightarrow> int" where
  "hashSeed seed levelId chunkX chunkY label =
     sint (avalanche (mixLabel (mixU32 (mixU32 (mixU32 (mixU32 2166136261 seed) levelId) chunkX) chunkY) label))"

section \<open>Chunk generator, maze variant (engine/src/maze.ts)\<close>

type_synonym Uint8Array = "8 word list"

record ChunkEdges =
  ch_seed :: int
  ch_levelId :: int
  ch_chunkX :: int
  ch_chunkY :: int
  east :: Uint8Array
  south :: Uint8Array

definition CHUNK_SIZE :: int where "CHUNK_SIZE = 64"
definition EDGE_WALL :: "8 word" where "EDGE_WALL = 0"
definition EDGE_OPEN :: "8 word" where "EDGE_OPEN = 1"
definition EDGE_DOOR :: "8 word" where "EDGE_DOOR = 2"

text \<open>
  Typed-array access. A read out of range is \<^verbatim>\<open>undefined\<close> in the source, which is
  falsy and different from \<^verbatim>\<open>EDGE_OPEN\<close> and \<^verbatim>\<open>EDGE_DOOR\<close>, the only tests made
  on it: the model answers 0. A write out of range is dropped.
\<close>

definition u8_get :: "Uint8Array \<Rightarrow> int \<Rightarrow> 8 word" where
  "u8_get a i = (if 0 \<le> i \<and> i < int (length a) then a ! nat i else 0)"

definition u8_set :: "Uint8Array \<Rightarrow> int \<Rightarrow> 8 word \<Rightarrow> Uint8Array" where
  "u8_set a i v = (if 0 \<le> i \<and> i < int (length a) then a[nat i := v] else a)"

definition idx :: "int \<Rightarrow> int \<Rightarrow> int" where
  "idx x y = y * CHUNK_SIZE + x"

definition inBounds :: "int \<Rightarrow> int \<Rightarrow> bool" where
  "inBounds x y = (x \<ge> 0 \<and> y \<ge> 0 \<and> x < CHUNK_SIZE \<and> y < CHUNK_SIZE)"

fun stepLocal :: "int \<Rightarrow> int \<Rightarrow> Dir \<Rightarrow> int \<times> int" where
  "stepLocal x y N = (x, y - 1)"
| "stepLocal x y S = (x, y + 1)"
| "stepLocal x y E = (x + 1, y)"
| "stepLocal x y W = (x - 1, y)"

definition setEast :: "Uint8Array \<Rightarrow> int \<Rightarrow> int \<Rightarrow> 8 word \<Rightarrow> Uint8Array" where
  "setEast ea x y v = (if \<not> inBounds x y then ea else u8_set ea (idx x y) v)"

definition setSouth :: "Uint8Array \<Rightarrow> int \<Rightarrow> int \<Rightarrow> 8 word \<Rightarrow> Uint8Array" where
  "setSouth so x y v = (if \<not> inBounds x y then so else u8_set so (idx x y) v)"

fun openBetween :: "Uint8Array \<times> Uint8Array \<Rightarrow> int \<Rightarrow> int \<Rightarrow> Dir \<Rightarrow> 8 word \<Rightarrow> Uint8Array \<times> Uint8Array" where
  "openBetween (ea, so) x y E v = (setEast ea x y v, so)"
| "openBetween (ea, so) x y S v = (ea, setSouth so x y v)"
| "openBetween (ea, so) x y W v = (setEast ea (x - 1) y v, so)"
| "openBetween (ea, so) x y N v = (ea, setSouth so x (y - 1) v)"

text \<open>The state of the carving loop: the generator's locals.\<close>

record CarveState =
  cs_rng :: u32
  cs_dirs :: "Dir list"
  cs_stack :: "(int \<times> int) list"
  cs_visited :: Uint8Array
  cs_east :: Uint8Array
  cs_south :: Uint8Array

text \<open>
  One turn of \<^verbatim>\<open>while (stack.length)\<close>: shuffle the directions, take the first one
  whose neighbour is in bounds and not visited, open the edge and push the neighbour;
  pop when there is none.
\<close>

definition carve_free :: "Uint8Array \<Rightarrow> int \<times> int \<Rightarrow> Dir \<Rightarrow> bool" where
  "carve_free vis cur d =
     (let (nx, ny) = stepLocal (fst cur) (snd cur) d
      in inBounds nx ny \<and> u8_get vis (idx nx ny) = 0)"

definition carve_body :: "CarveState \<Rightarrow> CarveState" where
  "carve_body st =
     (let cur = last (cs_stack st);
          (dirs', rng') = shuffleInPlace (cs_dirs st) (cs_rng st)
      in case find (carve_free (cs_visited st) cur) dirs' of
           Some d \<Rightarrow>
             (let (nx, ny) = stepLocal (fst cur) (snd cur) d;
                  (ea, so) = openBetween (cs_east st, cs_south st) (fst cur) (snd cur) d EDGE_OPEN
              in st\<lparr>cs_rng := rng', cs_dirs := dirs', cs_east := ea, cs_south := so,
                    cs_visited := u8_set (cs_visited st) (idx nx ny) 1,
                    cs_stack := cs_stack st @ [(nx, ny)]\<rparr>)
         | None \<Rightarrow> st\<lparr>cs_rng := rng', cs_dirs := dirs', cs_stack := butlast (cs_stack st)\<rparr>)"

definition carve_loop :: "CarveState \<Rightarrow> CarveState option" where
  "carve_loop st = while_option (\<lambda>s. cs_stack s \<noteq> []) carve_body st"

text \<open>The cells of a rectangle in the order of the nested \<^verbatim>\<open>for\<close> loops (rows outside).\<close>

definition rect_cells :: "int \<Rightarrow> int \<Rightarrow> int \<Rightarrow> int \<Rightarrow> (int \<times> int) list" where
  "rect_cells x0 y0 w h = concat (map (\<lambda>y. map (\<lambda>x. (x, y)) [x0..x0 + w - 1]) [y0..y0 + h - 1])"

definition carve_room_cell ::
  "int \<Rightarrow> int \<Rightarrow> int \<Rightarrow> int \<Rightarrow> int \<times> int \<Rightarrow> Uint8Array \<times> Uint8Array \<Rightarrow> Uint8Array \<times> Uint8Array" where
  "carve_room_cell x0 y0 w h c es =
     (let (x, y) = c; (ea, so) = es;
          ea1 = (if x < x0 + w - 1 then setEast ea x y EDGE_OPEN else ea);
          so1 = (if y < y0 + h - 1 then setSouth so x y EDGE_OPEN else so)
      in (ea1, so1))"

text \<open>
  One attempt of \<^verbatim>\<open>carveRooms\<close>, in the order of the loop body: the weighted
  size, the place, the interior edges, one opening on the perimeter.
\<close>

definition roomSize :: "nat \<Rightarrow> u32 \<Rightarrow> (int \<times> int) \<times> u32" where
  "roomSize roll r =
     (if frac_lt roll 60 100 then ((2, 2), r)
      else if frac_lt roll 90 100
        then (let (c, r') = rng_int r 0 2 in (if c = 0 then (2, 3) else (3, 2), r'))
      else ((3, 3), r))"

definition roomInterior :: "int \<Rightarrow> int \<Rightarrow> int \<Rightarrow> int \<Rightarrow> Uint8Array \<times> Uint8Array \<Rightarrow> Uint8Array \<times> Uint8Array" where
  "roomInterior x0 y0 w h es = fold (carve_room_cell x0 y0 w h) (rect_cells x0 y0 w h) es"

definition roomOpening ::
  "int \<Rightarrow> int \<Rightarrow> int \<Rightarrow> int \<Rightarrow> Uint8Array \<times> Uint8Array \<times> u32 \<Rightarrow> Uint8Array \<times> Uint8Array \<times> u32" where
  "roomOpening x0 y0 w h st =
     (let (ea1, so1, r4) = st;
          (side, r5) = rng_int r4 0 4
      in if side = 0 then
           (let (x, r6) = rng_int r5 x0 (x0 + w); y = y0
            in (ea1, if y > 0 then setSouth so1 x (y - 1) EDGE_OPEN else so1, r6))
         else if side = 1 then
           (let x = x0 + w - 1; (y, r6) = rng_int r5 y0 (y0 + h)
            in (setEast ea1 x y EDGE_OPEN, so1, r6))
         else if side = 2 then
           (let (x, r6) = rng_int r5 x0 (x0 + w); y = y0 + h - 1
            in (ea1, setSouth so1 x y EDGE_OPEN, r6))
         else
           (let x = x0; (y, r6) = rng_int r5 y0 (y0 + h)
            in (if x > 0 then setEast ea1 (x - 1) y EDGE_OPEN else ea1, so1, r6)))"

definition carveRoom_attempt :: "Uint8Array \<times> Uint8Array \<times> u32 \<Rightarrow> Uint8Array \<times> Uint8Array \<times> u32" where
  "carveRoom_attempt st =
     (let (ea, so, r0) = st;
          (roll, r1) = float01 r0;
          ((w, h), r2) = roomSize roll r1;
          (x0, r3) = rng_int r2 1 (CHUNK_SIZE - w - 1);
          (y0, r4) = rng_int r3 1 (CHUNK_SIZE - h - 1);
          (ea1, so1) = roomInterior x0 y0 w h (ea, so)
      in roomOpening x0 y0 w h (ea1, so1, r4))"

definition carveRooms :: "Uint8Array \<times> Uint8Array \<times> u32 \<Rightarrow> Uint8Array \<times> Uint8Array \<times> u32" where
  "carveRooms st = fold (\<lambda>_. carveRoom_attempt) [0..<10] st"

text \<open>
  \<^verbatim>\<open>placeDoors\<close>: a draw is made only for an edge that is open (the \<^verbatim>\<open>&&\<close> is
  short-circuit).
\<close>

definition placeDoor_cell :: "int \<times> int \<Rightarrow> Uint8Array \<times> Uint8Array \<times> u32 \<Rightarrow> Uint8Array \<times> Uint8Array \<times> u32" where
  "placeDoor_cell c st =
     (let (x, y) = c; (ea, so, r0) = st; i = idx x y;
          (ea1, r1) =
            (if u8_get ea i = EDGE_OPEN
             then (let (roll, r) = float01 r0
                   in (if frac_lt roll 35 1000 then u8_set ea i EDGE_DOOR else ea, r))
             else (ea, r0));
          (so1, r2) =
            (if u8_get so i = EDGE_OPEN
             then (let (roll, r) = float01 r1
                   in (if frac_lt roll 35 1000 then u8_set so i EDGE_DOOR else so, r))
             else (so, r1))
      in (ea1, so1, r2))"

definition placeDoors :: "Uint8Array \<times> Uint8Array \<times> u32 \<Rightarrow> Uint8Array \<times> Uint8Array \<times> u32" where
  "placeDoors st = fold placeDoor_cell (rect_cells 0 0 CHUNK_SIZE CHUNK_SIZE) st"

text \<open>
  \<^verbatim>\<open>generateChunkMaze\<close>. The carving loop is a \<^verbatim>\<open>while\<close>; \<open>None\<close> is the case that
  it never leaves the loop.
\<close>

definition generateChunkMaze :: "int \<Rightarrow> int \<Rightarrow> int \<Rightarrow> int \<Rightarrow> ChunkEdges option" where
  "generateChunkMaze seed levelId chunkX chunkY =
     (let r0 = XorShift32_new (hashSeed seed levelId chunkX chunkY ''maze'');
          ea0 = replicate (nat (CHUNK_SIZE * CHUNK_SIZE)) 0;
          so0 = replicate (nat (CHUNK_SIZE * CHUNK_SIZE)) 0;
          vis0 = replicate (nat (CHUNK_SIZE * CHUNK_SIZE)) 0;
          (sx, r1) = rng_int r0 0 CHUNK_SIZE;
          (sy, r2) = rng_int r1 0 CHUNK_SIZE;
          st0 = \<lparr>cs_rng = r2, cs_dirs = [N, E, S, W], cs_stack = [(sx, sy)],
                 cs_visited = u8_set vis0 (idx sx sy) 1, cs_east = ea0, cs_south = so0\<rparr>
      in case carve_loop st0 of
           None \<Rightarrow> None
         | Some st \<Rightarrow>
             (let (ea, so, r) = placeDoors (carveRooms (cs_east st, cs_south st, cs_rng st))
              in Some \<lparr>ch_seed = seed, ch_levelId = levelId, ch_chunkX = chunkX, ch_chunkY = chunkY,
                        east = ea, south = so\<rparr>))"

definition decodeEdge :: "8 word \<Rightarrow> EdgeType" where
  "decodeEdge v = (if v = EDGE_DOOR then DoorUnlocked else if v = EDGE_OPEN then Open else Wall)"

definition baseEdgeTypeFromChunk :: "ChunkEdges \<Rightarrow> int \<Rightarrow> int \<Rightarrow> Dir \<Rightarrow> EdgeType" where
  "baseEdgeTypeFromChunk chunk lx ly dir =
     (if \<not> inBounds lx ly then Wall
      else case dir of
        E \<Rightarrow> decodeEdge (u8_get (east chunk) (idx lx ly))
      | S \<Rightarrow> decodeEdge (u8_get (south chunk) (idx lx ly))
      | W \<Rightarrow> (if lx = 0 then Wall else decodeEdge (u8_get (east chunk) (idx (lx - 1) ly)))
      | N \<Rightarrow> (if ly = 0 then Wall else decodeEdge (u8_get (south chunk) (idx lx (ly - 1)))))"

text \<open>
  What the carving loop keeps: the three arrays have their 4096 cells. Its measure:
  twice the number of cells not visited, plus the height of the stack.
\<close>

definition carve_inv :: "CarveState \<Rightarrow> bool" where
  "carve_inv st = (length (cs_visited st) = 4096 \<and> length (cs_east st) = 4096 \<and> length (cs_south st) = 4096)"

definition carve_measure :: "CarveState \<Rightarrow> nat" where
  "carve_measure st = 2 * count_list (cs_visited st) 0 + length (cs_stack st)"

definition grid_ok :: "Uint8Array \<times> Uint8Array \<times> u32 \<Rightarrow> bool" where
  "grid_ok st = (case st of (ea, so, r) \<Rightarrow> length ea = 4096 \<and> length so = 4096)"

section \<open>The generator engine (world.ts, variant with base generation)\<close>

text \<open>
  \<^verbatim>\<open>floorDiv\<close> is \<^verbatim>\<open>Math.floor(a / b)\<close>, on integers the floor division. \<^verbatim>\<open>%\<close> is
  the remainder of the truncating division (it has the sign of the dividend);
  \<^verbatim>\<open>mod\<close> adds \<open>b\<close> to a negative remainder.
\<close>

definition floorDiv :: "int \<Rightarrow> int \<Rightarrow> int" where
  "floorDiv a b = a div b"

definition js_rem :: "int \<Rightarrow> int \<Rightarrow> int" where
  "js_rem a b = sgn a * (\<bar>a\<bar> mod \<bar>b\<bar>)"

definition mod_ts :: "int \<Rightarrow> int \<Rightarrow> int" where
  "mod_ts a b = (let r = js_rem a b in if r < 0 then r + b else r)"

definition edgeType_gen :: "int \<Rightarrow> OverlayReadGen \<Rightarrow> int \<Rightarrow> int \<Rightarrow> int \<Rightarrow> Dir \<Rightarrow> EdgeType option" where
  "edgeType_gen seed ov levelId x y dir =
     (case ov levelId x y dir of
        Some ovr \<Rightarrow> Some (edgeType ovr)
      | None \<Rightarrow>
          if x = 0 \<and> y = 0 \<and> dir = E then Some Open
          else if x = 1 \<and> y = 0 \<and> dir = W then Some Open
          else if x = 0 \<and> y = 0 \<and> dir = S then Some Open
          else if x = 0 \<and> y = 1 \<and> dir = N then Some Open
          else
            let cx = floorDiv x CHUNK_SIZE;
                cy = floorDiv y CHUNK_SIZE;
                lx = mod_ts x CHUNK_SIZE;
                ly = mod_ts y CHUNK_SIZE
            in (case generateChunkMaze seed levelId cx cy of
                 None \<Rightarrow> None
               | Some chunk \<Rightarrow>
                   if dir = E \<and> lx = CHUNK_SIZE - 1 then Some (if js_rem ly 8 = 0 then Open else Wall)
                   else if dir = W \<and> lx = 0 then Some (if js_rem ly 8 = 0 then Open else Wall)
                   else if dir = S \<and> ly = CHUNK_SIZE - 1 then Some (if js_rem lx 8 = 0 then Open else Wall)
                   else if dir = N \<and> ly = 0 then Some (if js_rem lx 8 = 0 then Open else Wall)
                   else Some (baseEdgeTypeFromChunk chunk lx ly dir)))"

definition canTraverse_gen :: "int \<Rightarrow> OverlayReadGen \<Rightarrow> int \<Rightarrow> int \<Rightarrow> int \<Rightarrow> Dir \<Rightarrow> bool option" where
  "canTraverse_gen seed ov levelId x y dir = map_option traversable (edgeType_gen seed ov levelId x y dir)"

definition move_gen ::
  "int \<Rightarrow> OverlayReadGen \<Rightarrow> int \<Rightarrow> PlayerState \<Rightarrow> CooldownState \<Rightarrow> (MoveResult \<times> DiscoveryCall list) option" where
  "move_gen seed ov now player cooldowns =
     (if now < moveReadyAtMs cooldowns
      then Some (\<lparr>r_ok = False, r_reason = Some ''move_cooldown'', r_player = None\<rparr>, [])
      else
        case canTraverse_gen seed ov (pl_levelId player) (pl_x player) (pl_y player) (pl_face player) of
          None \<Rightarrow> None
        | Some can \<Rightarrow>
            if \<not> can
            then Some (\<lparr>r_ok = False, r_reason = Some ''blocked'', r_player = None\<rparr>, [])
            else
              let (nx, ny) = step (pl_x player) (pl_y player) (pl_face player);
                  next = player\<lparr>pl_x := nx, pl_y := ny\<rparr>
              in Some (\<lparr>r_ok = True, r_reason = None, r_player = Some next\<rparr>,
                       [(pl_levelId next, pl_x next, pl_y next, now)]))"

section \<open>Visibility rays (computeOmniRays in world.ts)\<close>

record Edges =
  edge_N :: EdgeType
  edge_E :: EdgeType
  edge_S :: EdgeType
  edge_W :: EdgeType

record ViewCell =
  vc_x :: int
  vc_y :: int
  vc_edges :: Edges

text \<open>
  \<open>et x y dir\<close> is \<^verbatim>\<open>engine.edgeType(player.levelId, x, y, dir, 'visibility')\<close>. The
  \<^verbatim>\<open>Map\<close> \<open>out\<close> keeps its keys in insertion order; its key is the text \<^verbatim>\<open>x,y\<close>,
  here the pair.
\<close>

type_synonym EdgeOracle = "int \<Rightarrow> int \<Rightarrow> Dir \<Rightarrow> EdgeType"
type_synonym CellMap = "((int \<times> int) \<times> ViewCell) list"

definition viewCell :: "EdgeOracle \<Rightarrow> int \<Rightarrow> int \<Rightarrow> ViewCell" where
  "viewCell et x y = \<lparr>vc_x = x, vc_y = y,
     vc_edges = \<lparr>edge_N = et x y N, edge_E = et x y E, edge_S = et x y S, edge_W = et x y W\<rparr>\<rparr>"

definition addCell :: "EdgeOracle \<Rightarrow> CellMap \<Rightarrow> int \<Rightarrow> int \<Rightarrow> CellMap" where
  "addCell et out x y =
     (if (x, y) \<in> set (map fst out) then out
      else out @ [((x, y), viewCell et x y)])"

text \<open>The inner loop for one direction; the first argument counts the turns left.\<close>

fun ray :: "EdgeOracle \<Rightarrow> Dir \<Rightarrow> nat \<Rightarrow> int \<Rightarrow> int \<Rightarrow> CellMap \<Rightarrow> CellMap" where
  "ray et dir 0 cx cy out = out"
| "ray et dir (Suc n) cx cy out =
     (let forward = et cx cy dir in
      if \<not> (forward = Open \<or> forward = LeverSecret) then out
      else let (nx, ny) = step cx cy dir
           in ray et dir n nx ny (addCell et out nx ny))"

definition omniRays_map :: "EdgeOracle \<Rightarrow> PlayerState \<Rightarrow> nat \<Rightarrow> CellMap" where
  "omniRays_map et player depth =
     fold (\<lambda>dir out. ray et dir depth (pl_x player) (pl_y player) out) [N, E, S, W]
       (addCell et [] (pl_x player) (pl_y player))"

definition computeOmniRays :: "EdgeOracle \<Rightarrow> PlayerState \<Rightarrow> nat \<Rightarrow> ViewCell list" where
  "computeOmniRays et player depth = map snd (omniRays_map et player depth)"

definition visibleCells_lazy :: "OverlayRead \<Rightarrow> PlayerState \<Rightarrow> ViewCell list" where
  "visibleCells_lazy ov player =
     computeOmniRays (\<lambda>x y dir. edgeType_lazy ov (pl_levelId player) x y dir Visibility) player 3"

text \<open>The cells one ray steps onto, in order: the walk of the inner loop alone.\<close>

fun ray_cells :: "EdgeOracle \<Rightarrow> Dir \<Rightarrow> nat \<Rightarrow> int \<Rightarrow> int \<Rightarrow> (int \<times> int) list" where
  "ray_cells et dir 0 cx cy = []"
| "ray_cells et dir (Suc n) cx cy =
     (let forward = et cx cy dir in
      if \<not> (forward = Open \<or> forward = LeverSecret) then []
      else let (nx, ny) = step cx cy dir
           in (nx, ny) # ray_cells et dir n nx ny)"

text \<open>The cell \<open>k\<close> steps from (x, y) in a direction.\<close>

fun steps :: "Dir \<Rightarrow> nat \<Rightarrow> int \<times> int \<Rightarrow> int \<times> int" where
  "steps dir 0 c = c"
| "steps dir (Suc k) c = steps dir k (step (fst c) (snd c) dir)"

definition sees_through :: "EdgeType \<Rightarrow> bool" where
  "sees_through e = (e = Open \<or> e = LeverSecret)"

section \<open>Overlay store (server/src/overlays.ts)\<close>

record EdgeMeta =
  doorId :: "string option"
  frontier :: "bool option"

record EdgeRow =
  row_edge_type :: EdgeType
  row_lockDifficulty :: "int option"
  row_keyMonsterEntityId :: "string option"
  row_defaultStateOnReset :: bool
  row_meta :: EdgeMeta
  row_updated_at_ms :: int

text \<open>
  The table \<^verbatim>\<open>edge_overrides\<close> of one world: its primary key is
  (world, level, x, y, dir), so a row is found by its key and
  \<^verbatim>\<open>INSERT OR REPLACE\<close> replaces the row of that key.
\<close>

type_synonym EdgeKey = "int \<times> int \<times> int \<times> Dir"
type_synonym EdgeStore = "EdgeKey \<Rightarrow> EdgeRow option"


definition opposite :: "Dir \<Rightarrow> Dir" where
  "opposite dir = (if dir = N then S else if dir = S then N else if dir = E then W else E)"

definition upsertEdge :: "EdgeStore \<Rightarrow> int \<Rightarrow> int \<Rightarrow> int \<Rightarrow> Dir \<Rightarrow> EdgeType \<Rightarrow> EdgeMeta \<Rightarrow> int \<Rightarrow> EdgeStore" where
  "upsertEdge store levelId x y dir et meta now =
     store((levelId, x, y, dir) \<mapsto>
       \<lparr>row_edge_type = et, row_lockDifficulty = None, row_keyMonsterEntityId = None,
        row_defaultStateOnReset = False, row_meta = meta, row_updated_at_ms = now\<rparr>)"

definition writeEdgeBothWays :: "EdgeStore \<Rightarrow> int \<Rightarrow> int \<Rightarrow> int \<Rightarrow> Dir \<Rightarrow> EdgeType \<Rightarrow> EdgeMeta \<Rightarrow> int \<Rightarrow> EdgeStore" where
  "writeEdgeBothWays store levelId x y dir et meta now =
     (let store1 = upsertEdge store levelId x y dir et meta now;
          (nx, ny) = step x y dir
      in upsertEdge store1 levelId nx ny (opposite dir) et meta now)"


text \<open>
  The provider with seed hub and frontier doors. \<^verbatim>\<open>hashU32\<close> folds numbers and
  strings; \<^verbatim>\<open>Rng32\<close> is the same xorshift with another substitute for a zero seed.
\<close>

datatype HashPart = PNum int | PStr string

definition hashU32 :: "HashPart list \<Rightarrow> u32" where
  "hashU32 parts =
     avalanche (fold (\<lambda>p h. case p of PNum v \<Rightarrow> mixU32 h v | PStr t \<Rightarrow> mixLabel h t) parts 2166136261)"

definition Rng32_new :: "u32 \<Rightarrow> u32" where
  "Rng32_new seedU32 = (if seedU32 = 0 then 0x12345678 else seedU32)"

datatype CellKind = HubRoom | Room | Corridor

record CellMeta =
  kind :: CellKind
  areaId :: string

type_synonym CellStore = "int \<times> int \<times> int \<Rightarrow> CellMeta option"

text \<open>
  The database as the provider uses it: the two tables, and the count of identifiers
  drawn so far. \<^verbatim>\<open>id(prefix)\<close> draws random bytes: \<open>ids n\<close> is the text of the
  \<open>n\<close>-th draw.
\<close>

record OverlayDb =
  db_edges :: EdgeStore
  db_cells :: CellStore
  db_drawn :: nat

record OverlayCtx =
  ctx_seed :: int
  ctx_worldId :: string
  ctx_ids :: "nat \<Rightarrow> string"

definition new_id :: "OverlayCtx \<Rightarrow> string \<Rightarrow> OverlayDb \<Rightarrow> string \<times> OverlayDb" where
  "new_id ctx prefix db = (prefix @ ''_'' @ ctx_ids ctx (db_drawn db), db\<lparr>db_drawn := Suc (db_drawn db)\<rparr>)"

definition db_write :: "OverlayDb \<Rightarrow> int \<Rightarrow> int \<Rightarrow> int \<Rightarrow> Dir \<Rightarrow> EdgeType \<Rightarrow> EdgeMeta \<Rightarrow> int \<Rightarrow> OverlayDb" where
  "db_write db levelId x y dir et meta now =
     db\<lparr>db_edges := writeEdgeBothWays (db_edges db) levelId x y dir et meta now\<rparr>"

definition no_meta :: EdgeMeta where
  "no_meta = \<lparr>doorId = None, frontier = None\<rparr>"

definition hubCells :: "(int \<times> int) list" where
  "hubCells = [(0, 0), (1, 0), (0, 1), (1, 1)]"

definition hubPerimeter :: "(int \<times> int \<times> Dir) list" where
  "hubPerimeter = [(0, 0, N), (1, 0, N), (0, 1, S), (1, 1, S), (0, 0, W), (0, 1, W), (1, 0, E), (1, 1, E)]"

definition seed_hub_cell :: "int \<Rightarrow> int \<times> int \<Rightarrow> CellStore \<Rightarrow> CellStore" where
  "seed_hub_cell levelId c cells =
     (case cells (levelId, fst c, snd c) of
        None \<Rightarrow> cells((levelId, fst c, snd c) \<mapsto> \<lparr>kind = HubRoom, areaId = ''hub_room''\<rparr>)
      | Some _ \<Rightarrow> cells)"

definition seed_hub_wall :: "int \<Rightarrow> int \<Rightarrow> int \<times> int \<times> Dir \<Rightarrow> OverlayDb \<Rightarrow> OverlayDb" where
  "seed_hub_wall levelId now p db =
     (case p of (x, y, dir) \<Rightarrow>
        (case db_edges db (levelId, x, y, dir) of
           Some _ \<Rightarrow> db
         | None \<Rightarrow> db_write db levelId x y dir Wall no_meta now))"

text \<open>One turn of the loop over the shuffled candidates; the count is \<^verbatim>\<open>written\<close>.\<close>

definition seed_hub_door ::
  "OverlayCtx \<Rightarrow> int \<Rightarrow> int \<Rightarrow> nat \<Rightarrow> int \<times> int \<times> Dir \<Rightarrow> OverlayDb \<times> nat \<Rightarrow> OverlayDb \<times> nat" where
  "seed_hub_door ctx levelId now doorCount c acc =
     (case c of (x, y, dir) \<Rightarrow>
        (case acc of (db, written) \<Rightarrow>
           if written \<ge> doorCount then (db, written)
           else (case db_edges db (levelId, x, y, dir) of
                   None \<Rightarrow> (db, written)
                 | Some row \<Rightarrow>
                     if row_edge_type row \<noteq> Wall then (db, written)
                     else (let (did, db1) = new_id ctx ''d'' db
                           in (db_write db1 levelId x y dir DoorUnlocked
                                 \<lparr>doorId = Some did, frontier = Some True\<rparr> now, Suc written)))))"

definition ensureSeedHub :: "OverlayCtx \<Rightarrow> int \<Rightarrow> OverlayDb \<Rightarrow> int \<Rightarrow> OverlayDb" where
  "ensureSeedHub ctx now db levelId =
     (let db1 = db\<lparr>db_cells := fold (seed_hub_cell levelId) hubCells (db_cells db)\<rparr>;
          db2 = db_write db1 levelId 0 0 E Open no_meta now;
          db3 = db_write db2 levelId 0 0 S Open no_meta now;
          db4 = db_write db3 levelId 1 0 S Open no_meta now;
          db5 = db_write db4 levelId 0 1 E Open no_meta now;
          db6 = fold (seed_hub_wall levelId now) hubPerimeter db5;
          r0 = Rng32_new (hashU32 [PNum (ctx_seed ctx), PStr (ctx_worldId ctx), PNum levelId, PStr ''hub_doors_v1'']);
          (candidates, r1) = shuffleInPlace hubPerimeter r0;
          (roll, r2) = float01 r1;
          doorCount = (if frac_lt roll 35 100 then 2 else 1);
          (db7, written) = fold (seed_hub_door ctx levelId now doorCount) candidates (db6, 0)
      in if written = 0
         then (let (did, db8) = new_id ctx ''d'' db7
               in db_write db8 levelId 1 0 E DoorUnlocked \<lparr>doorId = Some did, frontier = Some True\<rparr> now)
         else db7)"

text \<open>
  \<^verbatim>\<open>getEdgeOverride(levelId, x, y, dir, purpose)\<close> of this provider writes before it
  reads: it answers the override and the database it leaves. \<open>expand\<close> stands for
  \<^verbatim>\<open>expandFrontierDoor\<close>, which carves the far side of a frontier door.
\<close>

type_synonym Expander = "OverlayDb \<Rightarrow> int \<Rightarrow> int \<Rightarrow> int \<Rightarrow> Dir \<Rightarrow> EdgeMeta \<Rightarrow> OverlayDb"

definition getEdgeOverride_db ::
  "OverlayCtx \<Rightarrow> Expander \<Rightarrow> int \<Rightarrow> OverlayDb \<Rightarrow> int \<Rightarrow> int \<Rightarrow> int \<Rightarrow> Dir \<Rightarrow> EdgeQueryPurpose
     \<Rightarrow> EdgeOverride option \<times> OverlayDb" where
  "getEdgeOverride_db ctx expand now db levelId x y dir purpose =
     (let db1 = (if purpose \<noteq> Minimap then ensureSeedHub ctx now db levelId else db);
          db2 = (if purpose = Movement then
                   (case db_edges db1 (levelId, x, y, dir) of
                      None \<Rightarrow> db1
                    | Some row0 \<Rightarrow>
                        if row_edge_type row0 = DoorUnlocked \<and> frontier (row_meta row0) = Some True
                        then expand db1 levelId x y dir (row_meta row0)
                        else db1)
                 else db1)
      in (case db_edges db2 (levelId, x, y, dir) of
            None \<Rightarrow> None
          | Some row \<Rightarrow> Some \<lparr>edgeType = row_edge_type row, lockDifficulty = None,
                               keyMonsterEntityId = None, defaultStateOnReset = False\<rparr>,
          db2))"

text \<open>
  The lazy-overlay engine on this provider: \<^verbatim>\<open>canTraverse\<close> makes one movement query;
  the engine sees the provider's answer, the database is what the query leaves.
\<close>

definition canTraverse_db ::
  "OverlayCtx \<Rightarrow> Expander \<Rightarrow> int \<Rightarrow> OverlayDb \<Rightarrow> int \<Rightarrow> int \<Rightarrow> int \<Rightarrow> Dir \<Rightarrow> MoveDir \<Rightarrow> bool \<times> OverlayDb" where
  "canTraverse_db ctx expand now db levelId x y face moveDir =
     (let q = getEdgeOverride_db ctx expand now db levelId x y (moveDirToAbs face moveDir) Movement
      in (canTraverse_lazy (\<lambda>_ _ _ _ _. fst q) levelId x y face moveDir, snd q))"

text \<open>
  \<^verbatim>\<open>edgeType\<close> of the lazy-overlay engine on this provider: one query; the engine sees
  the provider's answer, the database is what the query leaves.
\<close>

definition edgeType_db ::
  "OverlayCtx \<Rightarrow> Expander \<Rightarrow> int \<Rightarrow> OverlayDb \<Rightarrow> int \<Rightarrow> int \<Rightarrow> int \<Rightarrow> Dir \<Rightarrow> EdgeQueryPurpose
     \<Rightarrow> EdgeType \<times> OverlayDb" where
  "edgeType_db ctx expand now db levelId x y dir purpose =
     (let q = getEdgeOverride_db ctx expand now db levelId x y dir purpose
      in (edgeType_lazy (\<lambda>_ _ _ _ _. fst q) levelId x y dir purpose, snd q))"

text \<open>
  The edge asked from its two sides, one query after the other: the second query runs
  on the database the first one left.
\<close>

definition edgeType_both_sides ::
  "OverlayCtx \<Rightarrow> Expander \<Rightarrow> int \<Rightarrow> OverlayDb \<Rightarrow> int \<Rightarrow> int \<Rightarrow> int \<Rightarrow> Dir \<Rightarrow> EdgeQueryPurpose
     \<Rightarrow> EdgeType \<times> EdgeType" where
  "edgeType_both_sides ctx expand now db levelId x y dir purpose =
     (let (e1, db1) = edgeType_db ctx expand now db levelId x y dir purpose;
          (nx, ny) = step x y dir;
          (e2, db2) = edgeType_db ctx expand now db1 levelId nx ny (oppositeOf dir) purpose
      in (e1, e2))"

section \<open>Client messages (server/src/protocol.ts)\<close>

text \<open>
  A parsed JSON value. \<open>JNum\<close> is a finite number, \<open>JInf\<close> a number that
  \<^verbatim>\<open>Number.isFinite\<close> refuses; a key written twice in an object keeps its last value.
\<close>

datatype json = JNull | JBool bool | JNum rat | JInf | JStr string | JArr "json list" | JObj "(string \<times> json) list"

fun isRecord :: "json \<Rightarrow> bool" where
  "isRecord (JObj kvs) = True"
| "isRecord _ = False"

fun jget :: "json \<Rightarrow> string \<Rightarrow> json option" where
  "jget (JObj kvs) k = map_of (rev kvs) k"
| "jget _ k = None"

datatype ClientBody =
    AuthMsg string
  | MoveMsg MoveDir
  | TurnMsg Dir
  | JoinWorldMsg string
  | InteractMsg json
  | UseEggMsg json

record ClientMsg =
  seq :: rat
  body :: ClientBody

fun parseDir :: "json option \<Rightarrow> Dir option" where
  "parseDir (Some (JStr t)) =
     (if t = ''N'' then Some N else if t = ''E'' then Some E
      else if t = ''S'' then Some S else if t = ''W'' then Some W else None)"
| "parseDir _ = None"

fun parseMoveDir :: "json option \<Rightarrow> MoveDir option" where
  "parseMoveDir (Some (JStr t)) =
     (case parseDir (Some (JStr t)) of
        Some d \<Rightarrow> Some (Abs d)
      | None \<Rightarrow> if t = ''F'' then Some F else if t = ''B'' then Some B else None)"
| "parseMoveDir _ = None"

fun nonEmptyString :: "json option \<Rightarrow> string option" where
  "nonEmptyString (Some (JStr t)) = (if t = [] then None else Some t)"
| "nonEmptyString _ = None"

definition parseBody :: "string \<Rightarrow> json \<Rightarrow> string + ClientBody" where
  "parseBody type payload =
     (if type = ''auth'' then
        (case nonEmptyString (jget payload ''session_token'') of
           None \<Rightarrow> Inl ''auth.session_token required''
         | Some t \<Rightarrow> Inr (AuthMsg t))
      else if type = ''move'' then
        (case parseMoveDir (jget payload ''dir'') of
           None \<Rightarrow> Inl ''move.dir must be N/E/S/W or F/B''
         | Some d \<Rightarrow> Inr (MoveMsg d))
      else if type = ''turn'' then
        (case parseDir (jget payload ''face'') of
           None \<Rightarrow> Inl ''turn.face must be N/E/S/W''
         | Some f \<Rightarrow> Inr (TurnMsg f))
      else if type = ''join_world'' then
        (case nonEmptyString (jget payload ''world_id'') of
           None \<Rightarrow> Inl ''join_world.world_id required''
         | Some w \<Rightarrow> Inr (JoinWorldMsg w))
      else if type = ''interact'' then Inr (InteractMsg payload)
      else if type = ''use_egg'' then Inr (UseEggMsg payload)
      else Inl (''unknown type: '' @ type))"

definition safeParseClient :: "json \<Rightarrow> string + ClientMsg" where
  "safeParseClient input =
     (if \<not> isRecord input then Inl ''message must be an object''
      else case jget input ''seq'' of
        Some (JNum sq) \<Rightarrow>
          (case jget input ''type'' of
             Some (JStr type) \<Rightarrow>
               (case jget input ''payload'' of
                  Some payload \<Rightarrow>
                    (if \<not> isRecord payload then Inl ''payload must be an object''
                     else case parseBody type payload of
                       Inl err \<Rightarrow> Inl err
                     | Inr b \<Rightarrow> Inr \<lparr>seq = sq, body = b\<rparr>)
                | None \<Rightarrow> Inl ''payload must be an object'')
           | _ \<Rightarrow> Inl ''type must be a string'')
      | _ \<Rightarrow> Inl ''seq must be a number'')"

section \<open>Connection handler (server/src/ws.ts)\<close>

record ConnState =
  c_authed :: bool
  c_userId :: "string option"
  c_characterId :: "string option"
  c_worldId :: "string option"
  c_lastSeq :: rat
  c_cooldowns :: CooldownState

definition initial_state :: ConnState where
  "initial_state = \<lparr>c_authed = False, c_userId = None, c_characterId = None, c_worldId = None,
     c_lastSeq = - 1, c_cooldowns = \<lparr>moveReadyAtMs = 0, turnReadyAtMs = 0\<rparr>\<rparr>"

record ActiveCharacter =
  ac_characterId :: string
  ac_worldId :: string
  ac_levelId :: int
  ac_x :: int
  ac_y :: int
  ac_face :: Dir
  ac_hp :: int

text \<open>
  What the handler reads from outside: the session and character stores of
  \<^verbatim>\<open>state.ts\<close>, the configuration, the world seed, and the clock. \<open>env_loadSession\<close>
  is the user of the session row of a token, \<open>env_sessionExp\<close> the expiry time of that
  row when it holds a number. \<open>env_dateNow k\<close> is the value of the \<open>k\<close>-th call of
  \<^verbatim>\<open>Date.now()\<close> while one message is handled, counted from 0: the calls of the
  handler, of the engine's \<^verbatim>\<open>time.nowMs\<close> and of \<^verbatim>\<open>state.ts\<close>, in the order in which
  the code makes them. The overlay provider the handlers are given is a function: it
  reads no clock.
\<close>

record ServerEnv =
  env_loadSession :: "string \<Rightarrow> string option"
  env_sessionExp :: "string \<Rightarrow> int option"
  env_loadActiveCharacter :: "string \<Rightarrow> ActiveCharacter"
  env_dateNow :: "nat \<Rightarrow> int"
  env_moveCooldownMs :: int
  env_turnCooldownMs :: int
  env_seed :: int

datatype ServerMsg =
    ErrorMsg string string "rat option"
  | AuthErr string
  | AuthOk string string string
  | ActionResult bool "string option" rat
  | WorldState PlayerState CooldownState

text \<open>A call of \<^verbatim>\<open>savePosition\<close>: character, level, x, y, face.\<close>

type_synonym SavedPosition = "string \<times> int \<times> int \<times> int \<times> Dir"

record HandlerOut =
  h_state :: ConnState
  h_replies :: "ServerMsg list"
  h_saved :: "SavedPosition list"
  h_discovered :: "DiscoveryCall list"

definition reply_only :: "ConnState \<Rightarrow> ServerMsg \<Rightarrow> HandlerOut" where
  "reply_only st m = \<lparr>h_state = st, h_replies = [m], h_saved = [], h_discovered = []\<rparr>"

text \<open>
  \<^verbatim>\<open>sendWorldState\<close> marks the cell of the pose it is given as discovered, at the clock
  reading \<open>k\<close>, and sends the snapshot. Of the snapshot the model keeps the pose and the
  cooldowns.
\<close>

definition sendWorldState :: "ServerEnv \<Rightarrow> nat \<Rightarrow> ConnState \<Rightarrow> PlayerState \<Rightarrow> ServerMsg \<times> DiscoveryCall" where
  "sendWorldState env k st you =
     (WorldState you (c_cooldowns st), (pl_levelId you, pl_x you, pl_y you, env_dateNow env k))"

definition playerOf :: "ActiveCharacter \<Rightarrow> PlayerState" where
  "playerOf active = \<lparr>pl_levelId = ac_levelId active, pl_x = ac_x active, pl_y = ac_y active,
     pl_face = ac_face active, pl_hp = ac_hp active\<rparr>"

text \<open>
  \<^verbatim>\<open>loadSession\<close> has two forms. The one that answers \<^verbatim>\<open>{ userId } | null\<close> reads the
  row and no clock. The one that answers \<^verbatim>\<open>{ ok, userId }\<close> reads the clock once the row
  is found (reading 0) and refuses a row whose positive expiry time is before it.
\<close>

definition loadSession_rel :: "ServerEnv \<Rightarrow> string \<Rightarrow> string option" where
  "loadSession_rel env session_token = env_loadSession env session_token"

definition loadSession_abs :: "ServerEnv \<Rightarrow> string \<Rightarrow> string option" where
  "loadSession_abs env session_token =
     (case env_loadSession env session_token of
        None \<Rightarrow> None
      | Some uid \<Rightarrow>
          (let now = env_dateNow env 0 in
           case env_sessionExp env session_token of
             None \<Rightarrow> Some uid
           | Some ex \<Rightarrow> if ex > 0 \<and> now > ex then None else Some uid))"

text \<open>
  The \<^verbatim>\<open>auth\<close> branch. After the session is loaded, the two cooldown fields take one
  clock reading each, then \<^verbatim>\<open>sendWorldState\<close> takes the next: readings 0, 1 and 2 in the
  handler whose \<^verbatim>\<open>loadSession\<close> reads no clock, readings 1, 2 and 3 in the other.
\<close>

definition handle_auth_rel :: "ServerEnv \<Rightarrow> ConnState \<Rightarrow> string \<Rightarrow> HandlerOut" where
  "handle_auth_rel env st session_token =
     (case loadSession_rel env session_token of
        None \<Rightarrow> reply_only st (AuthErr ''invalid session'')
      | Some uid \<Rightarrow>
          let active = env_loadActiveCharacter env uid;
              st1 = st\<lparr>c_authed := True, c_userId := Some uid,
                       c_characterId := Some (ac_characterId active),
                       c_worldId := Some (ac_worldId active),
                       c_cooldowns := \<lparr>moveReadyAtMs = env_dateNow env 0, turnReadyAtMs = env_dateNow env 1\<rparr>\<rparr>;
              (ws, disc) = sendWorldState env 2 st1 (playerOf active)
          in \<lparr>h_state = st1,
              h_replies = [AuthOk uid (ac_characterId active) (ac_worldId active), ws],
              h_saved = [], h_discovered = [disc]\<rparr>)"

definition handle_auth_abs :: "ServerEnv \<Rightarrow> ConnState \<Rightarrow> string \<Rightarrow> HandlerOut" where
  "handle_auth_abs env st session_token =
     (case loadSession_abs env session_token of
        None \<Rightarrow> reply_only st (AuthErr ''invalid session'')
      | Some uid \<Rightarrow>
          let active = env_loadActiveCharacter env uid;
              st1 = st\<lparr>c_authed := True, c_userId := Some uid,
                       c_characterId := Some (ac_characterId active),
                       c_worldId := Some (ac_worldId active),
                       c_cooldowns := \<lparr>moveReadyAtMs = env_dateNow env 1, turnReadyAtMs = env_dateNow env 2\<rparr>\<rparr>;
              (ws, disc) = sendWorldState env 3 st1 (playerOf active)
          in \<lparr>h_state = st1,
              h_replies = [AuthOk uid (ac_characterId active) (ac_worldId active), ws],
              h_saved = [], h_discovered = [disc]\<rparr>)"

text \<open>
  The move handler that hands the payload direction to the lazy-overlay engine. The
  handler reads the clock (reading 0), then the engine does (reading 1); on an accepted
  move \<^verbatim>\<open>savePosition\<close> reads it for the row's \<^verbatim>\<open>updated_at_ms\<close> (reading 2), and
  \<^verbatim>\<open>sendWorldState\<close> after it (reading 3).
\<close>

definition handle_move_rel :: "ServerEnv \<Rightarrow> OverlayRead \<Rightarrow> ConnState \<Rightarrow> ActiveCharacter \<Rightarrow> rat \<Rightarrow> MoveDir \<Rightarrow> HandlerOut" where
  "handle_move_rel env ov st active sq dir =
     (let now = env_dateNow env 0 in
      if now < moveReadyAtMs (c_cooldowns st)
      then reply_only st (ActionResult False (Some ''move_cooldown'') sq)
      else
        let (r, disc) = move_lazy ov (env_dateNow env 1) (playerOf active) (c_cooldowns st) dir in
        case (r_ok r, r_player r) of
          (True, Some p) \<Rightarrow>
            (let st1 = st\<lparr>c_cooldowns := (c_cooldowns st)\<lparr>moveReadyAtMs := now + env_moveCooldownMs env\<rparr>\<rparr>;
                 (ws, disc2) = sendWorldState env 3 st1 p
             in \<lparr>h_state = st1,
                 h_replies = [ActionResult True None sq, ws],
                 h_saved = [(ac_characterId active, pl_levelId p, pl_x p, pl_y p, pl_face p)],
                 h_discovered = disc @ [disc2]\<rparr>)
        | _ \<Rightarrow> \<lparr>h_state = st, h_replies = [ActionResult False (r_reason r) sq],
                 h_saved = [], h_discovered = disc\<rparr>)"

text \<open>
  The move handler that resolves the direction itself and calls the generator engine's
  \<^verbatim>\<open>move(player, cooldowns)\<close> with the resolved direction as facing. The clock
  readings are those of the other move handler.
\<close>

definition handle_move_abs ::
  "ServerEnv \<Rightarrow> OverlayReadGen \<Rightarrow> ConnState \<Rightarrow> ActiveCharacter \<Rightarrow> rat \<Rightarrow> MoveDir \<Rightarrow> HandlerOut option" where
  "handle_move_abs env ov st active sq payloadDir =
     (let now = env_dateNow env 0 in
      if now < moveReadyAtMs (c_cooldowns st)
      then Some (reply_only st (ActionResult False (Some ''move_cooldown'') sq))
      else
        let currentFace = ac_face active;
            (moveDir, newFace) =
              (case payloadDir of
                 F \<Rightarrow> (currentFace, currentFace)
               | B \<Rightarrow> (oppositeOf currentFace, currentFace)
               | Abs d \<Rightarrow> (d, d));
            playerForMove = \<lparr>pl_levelId = ac_levelId active, pl_x = ac_x active, pl_y = ac_y active,
                              pl_face = moveDir, pl_hp = ac_hp active\<rparr>
        in case move_gen (env_seed env) ov (env_dateNow env 1) playerForMove (c_cooldowns st) of
             None \<Rightarrow> None
           | Some (r, disc) \<Rightarrow>
               (case (r_ok r, r_player r) of
                  (True, Some p) \<Rightarrow>
                    (let st1 = st\<lparr>c_cooldowns := (c_cooldowns st)\<lparr>moveReadyAtMs := now + env_moveCooldownMs env\<rparr>\<rparr>;
                         (ws, disc2) = sendWorldState env 3 st1 (p\<lparr>pl_face := newFace\<rparr>)
                     in Some \<lparr>h_state = st1,
                              h_replies = [ActionResult True None sq, ws],
                              h_saved = [(ac_characterId active, pl_levelId p, pl_x p, pl_y p, newFace)],
                              h_discovered = disc @ [disc2]\<rparr>)
                | _ \<Rightarrow> Some \<lparr>h_state = st, h_replies = [ActionResult False (r_reason r) sq],
                              h_saved = [], h_discovered = disc\<rparr>))"

text \<open>
  The two \<^verbatim>\<open>turn\<close> branches. \<^verbatim>\<open>savePosition\<close> reads the clock before
  \<^verbatim>\<open>sendWorldState\<close> does: readings 0 (the handler), 1 and 2 in the branch with a turn
  cooldown, readings 0 and 1 in the instant one.
\<close>

definition handle_turn_cooldown :: "ServerEnv \<Rightarrow> ConnState \<Rightarrow> ActiveCharacter \<Rightarrow> rat \<Rightarrow> Dir \<Rightarrow> HandlerOut" where
  "handle_turn_cooldown env st active sq face =
     (let now = env_dateNow env 0 in
      if now < turnReadyAtMs (c_cooldowns st)
      then reply_only st (ActionResult False (Some ''turn_cooldown'') sq)
      else
        let st1 = st\<lparr>c_cooldowns := (c_cooldowns st)\<lparr>turnReadyAtMs := now + env_turnCooldownMs env\<rparr>\<rparr>;
            (ws, disc) = sendWorldState env 2 st1 ((playerOf active)\<lparr>pl_face := face\<rparr>)
        in \<lparr>h_state = st1, h_replies = [ActionResult True None sq, ws],
            h_saved = [(ac_characterId active, ac_levelId active, ac_x active, ac_y active, face)],
            h_discovered = [disc]\<rparr>)"

definition handle_turn_instant :: "ServerEnv \<Rightarrow> ConnState \<Rightarrow> ActiveCharacter \<Rightarrow> rat \<Rightarrow> Dir \<Rightarrow> HandlerOut" where
  "handle_turn_instant env st active sq face =
     (let (ws, disc) = sendWorldState env 1 st ((playerOf active)\<lparr>pl_face := face\<rparr>)
      in \<lparr>h_state = st, h_replies = [ActionResult True None sq, ws],
          h_saved = [(ac_characterId active, ac_levelId active, ac_x active, ac_y active, face)],
          h_discovered = [disc]\<rparr>)"

text \<open>
  The message handler after \<^verbatim>\<open>JSON.parse\<close>: \<open>None\<close> as input is a frame that is not
  JSON. \<open>on_message_rel\<close> is the handler of the file that has \<open>handle_move_rel\<close>,
  \<open>on_message_abs\<close> the one that has \<open>handle_move_abs\<close>.
\<close>

definition dispatch_rel :: "ServerEnv \<Rightarrow> OverlayRead \<Rightarrow> ConnState \<Rightarrow> ClientMsg \<Rightarrow> HandlerOut" where
  "dispatch_rel env ov st msg =
     (if \<not> c_authed st \<and> (case body msg of AuthMsg _ \<Rightarrow> False | _ \<Rightarrow> True)
      then reply_only st (AuthErr ''unauthenticated'')
      else case body msg of
        AuthMsg t \<Rightarrow> handle_auth_rel env st t
      | b \<Rightarrow>
         (case (c_userId st, c_characterId st, c_worldId st) of
            (Some uid, Some cid, Some wid) \<Rightarrow>
              (if uid = [] \<or> cid = [] \<or> wid = []
               then reply_only st (ErrorMsg ''state'' ''missing authed state'' None)
               else let active = env_loadActiveCharacter env uid in
                 (case b of
                    MoveMsg d \<Rightarrow> handle_move_rel env ov st active (seq msg) d
                  | TurnMsg f \<Rightarrow> handle_turn_cooldown env st active (seq msg) f
                  | _ \<Rightarrow> reply_only st (ActionResult False (Some ''not_implemented'') (seq msg))))
          | _ \<Rightarrow> reply_only st (ErrorMsg ''state'' ''missing authed state'' None)))"

definition on_message_rel :: "ServerEnv \<Rightarrow> OverlayRead \<Rightarrow> ConnState \<Rightarrow> json option \<Rightarrow> HandlerOut" where
  "on_message_rel env ov st frame =
     (case frame of
        None \<Rightarrow> reply_only st (ErrorMsg ''bad_json'' ''invalid json'' None)
      | Some j \<Rightarrow>
          (case safeParseClient j of
             Inl err \<Rightarrow> reply_only st (ErrorMsg ''bad_schema'' err None)
           | Inr msg \<Rightarrow>
               if seq msg \<le> c_lastSeq st
               then reply_only st (ErrorMsg ''bad_seq'' ''seq must increase'' (Some (seq msg)))
               else dispatch_rel env ov (st\<lparr>c_lastSeq := seq msg\<rparr>) msg))"

definition dispatch_abs :: "ServerEnv \<Rightarrow> OverlayReadGen \<Rightarrow> ConnState \<Rightarrow> ClientMsg \<Rightarrow> HandlerOut option" where
  "dispatch_abs env ov st msg =
     (if \<not> c_authed st \<and> (case body msg of AuthMsg _ \<Rightarrow> False | _ \<Rightarrow> True)
      then Some (reply_only st (AuthErr ''unauthenticated''))
      else case body msg of
        AuthMsg t \<Rightarrow> Some (handle_auth_abs env st t)
      | b \<Rightarrow>
         (case (c_userId st, c_characterId st, c_worldId st) of
            (Some uid, Some cid, Some wid) \<Rightarrow>
              (if uid = [] \<or> cid = [] \<or> wid = []
               then Some (reply_only st (ErrorMsg ''state'' ''missing authed state'' None))
               else let active = env_loadActiveCharacter env uid in
                 (case b of
                    MoveMsg d \<Rightarrow> handle_move_abs env ov st active (seq msg) d
                  | TurnMsg f \<Rightarrow> Some (handle_turn_instant env st active (seq msg) f)
                  | _ \<Rightarrow> Some (reply_only st (ActionResult False (Some ''not_implemented'') (seq msg)))))
          | _ \<Rightarrow> Some (reply_only st (ErrorMsg ''state'' ''missing authed state'' None))))"

definition on_message_abs :: "ServerEnv \<Rightarrow> OverlayReadGen \<Rightarrow> ConnState \<Rightarrow> json option \<Rightarrow> HandlerOut option" where
  "on_message_abs env ov st frame =
     (case frame of
        None \<Rightarrow> Some (reply_only st (ErrorMsg ''bad_json'' ''invalid json'' None))
      | Some j \<Rightarrow>
          (case safeParseClient j of
             Inl err \<Rightarrow> Some (reply_only st (ErrorMsg ''bad_schema'' err None))
           | Inr msg \<Rightarrow>
               if seq msg \<le> c_lastSeq st
               then Some (reply_only st (ErrorMsg ''bad_seq'' ''seq must increase'' (Some (seq msg))))
               else dispatch_abs env ov (st\<lparr>c_lastSeq := seq msg\<rparr>) msg))"

text \<open>
  A connection: the frames are handled in the order received, each on the state the
  one before left. The result lists every handler output.
\<close>

fun run_rel :: "(nat \<Rightarrow> ServerEnv) \<Rightarrow> OverlayRead \<Rightarrow> nat \<Rightarrow> ConnState \<Rightarrow> json option list \<Rightarrow> HandlerOut list" where
  "run_rel envs ov k st [] = []"
| "run_rel envs ov k st (f # fs) =
     (let out = on_message_rel (envs k) ov st f in out # run_rel envs ov (Suc k) (h_state out) fs)"

text \<open>The sequence numbers a run accepted: those the handler stored in \<^verbatim>\<open>lastSeq\<close>.\<close>

fun accepted_rel :: "(nat \<Rightarrow> ServerEnv) \<Rightarrow> OverlayRead \<Rightarrow> nat \<Rightarrow> ConnState \<Rightarrow> json option list \<Rightarrow> rat list" where
  "accepted_rel envs ov k st [] = []"
| "accepted_rel envs ov k st (f # fs) =
     (let out = on_message_rel (envs k) ov st f;
          rest = accepted_rel envs ov (Suc k) (h_state out) fs
      in if c_lastSeq (h_state out) \<noteq> c_lastSeq st then c_lastSeq (h_state out) # rest else rest)"

text \<open>
  Names for the two fixed rules of \<open>edgeType_gen\<close>: the four hub edges it answers
  as open, and the kind of a chunk-boundary edge from the orthogonal local coordinate.
\<close>

definition hub_forced :: "int \<Rightarrow> int \<Rightarrow> Dir \<Rightarrow> bool" where
  "hub_forced x y dir = ((x = 0 \<and> y = 0 \<and> dir = E) \<or> (x = 1 \<and> y = 0 \<and> dir = W)
     \<or> (x = 0 \<and> y = 0 \<and> dir = S) \<or> (x = 0 \<and> y = 1 \<and> dir = N))"

definition boundary_kind :: "int \<Rightarrow> EdgeType" where
  "boundary_kind l = (if l mod 8 = 0 then Open else Wall)"

text \<open>The key of the same edge seen from the neighbouring cell.\<close>

definition mirror :: "EdgeKey \<Rightarrow> EdgeKey" where
  "mirror k = (case k of (levelId, x, y, dir) \<Rightarrow>
     (levelId, fst (step x y dir), snd (step x y dir), opposite dir))"

text \<open>The kind the table holds for a key.\<close>

definition kind_at :: "OverlayDb \<Rightarrow> EdgeKey \<Rightarrow> EdgeType option" where
  "kind_at db k = map_option row_edge_type (db_edges db k)"

text \<open>The two hub edges that must stay traversable are held as open.\<close>

definition hub_open :: "int \<Rightarrow> OverlayDb \<Rightarrow> bool" where
  "hub_open levelId db = (kind_at db (levelId, 0, 0, E) = Some Open \<and> kind_at db (levelId, 0, 0, S) = Some Open)"

text \<open>A move intent is accepted when the handler's first reply is the ok result.\<close>

definition move_accepted :: "HandlerOut \<Rightarrow> rat \<Rightarrow> bool" where
  "move_accepted out sq = (case h_replies out of [] \<Rightarrow> False | m # _ \<Rightarrow> m = ActionResult True None sq)"

fun accepted_abs :: "(nat \<Rightarrow> ServerEnv) \<Rightarrow> OverlayReadGen \<Rightarrow> nat \<Rightarrow> ConnState \<Rightarrow> json option list \<Rightarrow> rat list" where
  "accepted_abs envs ov k st [] = []"
| "accepted_abs envs ov k st (f # fs) =
     (case on_message_abs (envs k) ov st f of
        None \<Rightarrow> []
      | Some out \<Rightarrow>
          (let rest = accepted_abs envs ov (Suc k) (h_state out) fs
           in if c_lastSeq (h_state out) \<noteq> c_lastSeq st then c_lastSeq (h_state out) # rest else rest))"

section \<open>Concrete inputs for the examples\<close>

definition ov_const :: "EdgeType \<Rightarrow> EdgeOverride" where
  "ov_const e = \<lparr>edgeType = e, lockDifficulty = None, keyMonsterEntityId = None, defaultStateOnReset = False\<rparr>"

definition ov_all :: "EdgeType \<Rightarrow> OverlayRead" where
  "ov_all e = (\<lambda>levelId x y dir purpose. Some (ov_const e))"

definition ov_all_gen :: "EdgeType \<Rightarrow> OverlayReadGen" where
  "ov_all_gen e = (\<lambda>levelId x y dir. Some (ov_const e))"

definition ov_none_gen :: OverlayReadGen where
  "ov_none_gen = (\<lambda>levelId x y dir. None)"

definition player0 :: PlayerState where
  "player0 = \<lparr>pl_levelId = 1, pl_x = 0, pl_y = 0, pl_face = N, pl_hp = 10\<rparr>"

definition cooldowns0 :: CooldownState where
  "cooldowns0 = \<lparr>moveReadyAtMs = 0, turnReadyAtMs = 0\<rparr>"

definition active0 :: ActiveCharacter where
  "active0 = \<lparr>ac_characterId = ''c1'', ac_worldId = ''w1'', ac_levelId = 1, ac_x = 0, ac_y = 0,
     ac_face = N, ac_hp = 10\<rparr>"

text \<open>An environment whose clock reads \<open>t\<close>, \<open>t + 1\<close>, ... and whose move cooldown is 500 ms.\<close>

definition env_at :: "int \<Rightarrow> ServerEnv" where
  "env_at t = \<lparr>env_loadSession = (\<lambda>tok. if tok = ''tok'' then Some ''u1'' else None),
     env_sessionExp = (\<lambda>tok. None),
     env_loadActiveCharacter = (\<lambda>uid. active0),
     env_dateNow = (\<lambda>k. t + int k),
     env_moveCooldownMs = 500, env_turnCooldownMs = 150, env_seed = 777\<rparr>"

definition st_authed :: ConnState where
  "st_authed = \<lparr>c_authed = True, c_userId = Some ''u1'', c_characterId = Some ''c1'',
     c_worldId = Some ''w1'', c_lastSeq = 0, c_cooldowns = \<lparr>moveReadyAtMs = 0, turnReadyAtMs = 0\<rparr>\<rparr>"

definition move_frame :: "rat \<Rightarrow> string \<Rightarrow> json" where
  "move_frame sq d = JObj [(''seq'', JNum sq), (''type'', JStr ''move''), (''payload'', JObj [(''dir'', JStr d)])]"

text \<open>An overlay with an unlocked door east of (0, 0) on level 1 and an open edge north of it.\<close>

definition ov_door_east :: OverlayRead where
  "ov_door_east = (\<lambda>levelId x y dir purpose.
     if levelId = 1 \<and> x = 0 \<and> y = 0 \<and> dir = E then Some (ov_const DoorUnlocked)
     else if levelId = 1 \<and> x = 0 \<and> y = 0 \<and> dir = N then Some (ov_const Open)
     else None)"


definition ctx0 :: OverlayCtx where
  "ctx0 = \<lparr>ctx_seed = 777, ctx_worldId = ''w1'', ctx_ids = (\<lambda>n. ''id'')\<rparr>"

definition db_empty :: OverlayDb where
  "db_empty = \<lparr>db_edges = Map.empty, db_cells = Map.empty, db_drawn = 0\<rparr>"

text \<open>
  The edges \<^verbatim>\<open>ensureSeedHub\<close> writes: the four interior edges of the 2x2 hub and the
  eight edges of its perimeter. A key is among a list of edges when it is the key of
  one of them, seen from either side.
\<close>

definition hubInterior :: "(int \<times> int \<times> Dir) list" where
  "hubInterior = [(0, 0, E), (0, 0, S), (1, 0, S), (0, 1, E)]"

definition edge_among :: "int \<Rightarrow> (int \<times> int \<times> Dir) list \<Rightarrow> EdgeKey \<Rightarrow> bool" where
  "edge_among levelId es k = list_ex (\<lambda>e. k = (levelId, e) \<or> k = mirror (levelId, e)) es"

text \<open>
  What \<^verbatim>\<open>ensureSeedHub\<close> does to the edge kinds alone, without the rows' metadata, the
  cells and the identifiers: \<open>put_kind\<close> is \<^verbatim>\<open>writeEdgeBothWays\<close>, \<open>wall_kind\<close> one turn
  of the loop over the perimeter, \<open>door_kind\<close> one turn of the loop over the shuffled
  candidates, \<open>hubDoorPlan\<close> the candidates and the door count drawn from the
  generator.
\<close>

type_synonym Kinds = "EdgeKey \<Rightarrow> EdgeType option"

definition put_kind :: "int \<Rightarrow> EdgeType \<Rightarrow> int \<times> int \<times> Dir \<Rightarrow> Kinds \<Rightarrow> Kinds" where
  "put_kind levelId et e K = K((levelId, e) \<mapsto> et, mirror (levelId, e) \<mapsto> et)"

definition wall_kind :: "int \<Rightarrow> int \<times> int \<times> Dir \<Rightarrow> Kinds \<Rightarrow> Kinds" where
  "wall_kind levelId e K = (case K (levelId, e) of Some _ \<Rightarrow> K | None \<Rightarrow> put_kind levelId Wall e K)"

definition door_kind :: "int \<Rightarrow> nat \<Rightarrow> int \<times> int \<times> Dir \<Rightarrow> Kinds \<times> nat \<Rightarrow> Kinds \<times> nat" where
  "door_kind levelId doorCount e acc =
     (case acc of (K, written) \<Rightarrow>
        if written \<ge> doorCount then (K, written)
        else if K (levelId, e) = Some Wall then (put_kind levelId DoorUnlocked e K, Suc written)
        else (K, written))"

definition hubDoorPlan :: "OverlayCtx \<Rightarrow> int \<Rightarrow> (int \<times> int \<times> Dir) list \<times> nat" where
  "hubDoorPlan ctx levelId =
     (let r0 = Rng32_new (hashU32 [PNum (ctx_seed ctx), PStr (ctx_worldId ctx), PNum levelId, PStr ''hub_doors_v1'']);
          (candidates, r1) = shuffleInPlace hubPerimeter r0;
          (roll, r2) = float01 r1
      in (candidates, if frac_lt roll 35 100 then 2 else 1))"

definition seed_kinds :: "int \<Rightarrow> (int \<times> int \<times> Dir) list \<times> nat \<Rightarrow> Kinds \<Rightarrow> Kinds" where
  "seed_kinds levelId plan K =
     (case fold (door_kind levelId (snd plan)) (fst plan)
             (fold (wall_kind levelId) hubPerimeter (fold (put_kind levelId Open) hubInterior K), 0) of
        (K7, written) \<Rightarrow> if written = 0 then put_kind levelId DoorUnlocked (1, 0, E) K7 else K7)"

text \<open>
  An expander that leaves the database as it is, a database that holds a locked door
  on the interior hub edge east of (0, 0) on level 3, and one that holds a wall on the
  perimeter edge south of (1, 1) on level 1.
\<close>

definition expand_none :: Expander where
  "expand_none = (\<lambda>db levelId x y dir meta. db)"

definition db_locked :: OverlayDb where
  "db_locked = db_write db_empty 3 0 0 E DoorLocked no_meta 0"

definition db_wall :: OverlayDb where
  "db_wall = db_write db_empty 1 1 1 S Wall no_meta 0"

section \<open>Verified properties\<close>

subsection \<open>Frame of a successful move\<close>

text \<open>
  C10. When \<^verbatim>\<open>WorldEngine.move\<close> answers ok, the player it answers is the input
  player with the position one step in the resolved direction: exactly one of x and y
  differs, by exactly 1; level, facing and hit points are the input's; and the call
  makes exactly one discovery insert, for the destination cell at the time read.
\<close>

theorem move_ok_frame:
  assumes "move_lazy ov now player cooldowns moveDir = (r, calls)" and "r_ok r"
  shows "\<exists>nx ny p'.
           step (pl_x player) (pl_y player) (moveDirToAbs (pl_face player) moveDir) = (nx, ny)
           \<and> r_player r = Some p'
           \<and> p' = player\<lparr>pl_x := nx, pl_y := ny\<rparr>
           \<and> ((nx \<noteq> pl_x player \<and> ny = pl_y player \<and> \<bar>nx - pl_x player\<bar> = 1)
              \<or> (nx = pl_x player \<and> ny \<noteq> pl_y player \<and> \<bar>ny - pl_y player\<bar> = 1))
           \<and> pl_levelId p' = pl_levelId player \<and> pl_face p' = pl_face player \<and> pl_hp p' = pl_hp player
           \<and> calls = [(pl_levelId player, nx, ny, now)]"
proof -
  obtain nx ny where n: "step (pl_x player) (pl_y player) (moveDirToAbs (pl_face player) moveDir) = (nx, ny)"
    by (cases "step (pl_x player) (pl_y player) (moveDirToAbs (pl_face player) moveDir)")
  have geo: "(nx \<noteq> pl_x player \<and> ny = pl_y player \<and> \<bar>nx - pl_x player\<bar> = 1)
              \<or> (nx = pl_x player \<and> ny \<noteq> pl_y player \<and> \<bar>ny - pl_y player\<bar> = 1)"
    using n by (cases "moveDirToAbs (pl_face player) moveDir") auto
  from assms n have "r_player r = Some (player\<lparr>pl_x := nx, pl_y := ny\<rparr>)
      \<and> calls = [(pl_levelId player, nx, ny, now)]"
    by (auto simp: move_lazy_def Let_def split: if_splits)
  with n geo show ?thesis by simp
qed

theorem move_ok_frame_witness:
  "r_ok (fst (move_lazy (ov_all Open) 1000 player0 cooldowns0 F))
   \<and> r_player (fst (move_lazy (ov_all Open) 1000 player0 cooldowns0 F)) = Some (player0\<lparr>pl_x := 0, pl_y := - 1\<rparr>)
   \<and> snd (move_lazy (ov_all Open) 1000 player0 cooldowns0 F) = [(1, 0, - 1, 1000)]"
proof -
  have ev: "move_lazy (ov_all Open) 1000 player0 cooldowns0 F
      = (\<lparr>r_ok = True, r_reason = None, r_player = Some (player0\<lparr>pl_x := 0, pl_y := - 1\<rparr>)\<rparr>, [(1, 0, - 1, 1000)])"
    by (simp add: move_lazy_def ov_all_def ov_const_def player0_def cooldowns0_def
        canTraverseAbs_lazy_def edgeType_lazy_def traversable_def)
  have ok: "r_ok \<lparr>r_ok = True, r_reason = None, r_player = Some (player0\<lparr>pl_x := 0, pl_y := - 1\<rparr>)\<rparr>"
    by simp
  from move_ok_frame [OF ev ok] show ?thesis
    by (simp add: ev)
qed

subsection \<open>Overlay precedence\<close>



subsection \<open>The move handlers\<close>

lemma reply_only_simps [simp]:
  "h_state (reply_only st m) = st" "h_replies (reply_only st m) = [m]"
  "h_saved (reply_only st m) = []" "h_discovered (reply_only st m) = []"
  by (simp_all add: reply_only_def)

lemma handle_move_rel_cooldown:
  "env_dateNow env 0 < moveReadyAtMs (c_cooldowns st) \<Longrightarrow>
   handle_move_rel env ov st active sq dir = reply_only st (ActionResult False (Some ''move_cooldown'') sq)"
  by (simp add: handle_move_rel_def)

lemma handle_move_rel_blocked:
  "\<not> env_dateNow env 0 < moveReadyAtMs (c_cooldowns st) \<Longrightarrow> env_dateNow env 0 \<le> env_dateNow env 1 \<Longrightarrow>
   \<not> canTraverseAbs_lazy ov (ac_levelId active) (ac_x active) (ac_y active) (moveDirToAbs (ac_face active) dir) \<Longrightarrow>
   handle_move_rel env ov st active sq dir
     = \<lparr>h_state = st, h_replies = [ActionResult False (Some ''blocked'') sq], h_saved = [], h_discovered = []\<rparr>"
  by (simp add: handle_move_rel_def move_lazy_def playerOf_def)

lemma handle_move_rel_ok:
  "\<not> env_dateNow env 0 < moveReadyAtMs (c_cooldowns st) \<Longrightarrow> env_dateNow env 0 \<le> env_dateNow env 1 \<Longrightarrow>
   canTraverseAbs_lazy ov (ac_levelId active) (ac_x active) (ac_y active) (moveDirToAbs (ac_face active) dir) \<Longrightarrow>
   step (ac_x active) (ac_y active) (moveDirToAbs (ac_face active) dir) = (nx, ny) \<Longrightarrow>
   handle_move_rel env ov st active sq dir
     = \<lparr>h_state = st\<lparr>c_cooldowns := (c_cooldowns st)\<lparr>moveReadyAtMs := env_dateNow env 0 + env_moveCooldownMs env\<rparr>\<rparr>,
        h_replies = [ActionResult True None sq,
          WorldState ((playerOf active)\<lparr>pl_x := nx, pl_y := ny\<rparr>)
            ((c_cooldowns st)\<lparr>moveReadyAtMs := env_dateNow env 0 + env_moveCooldownMs env\<rparr>)],
        h_saved = [(ac_characterId active, ac_levelId active, nx, ny, ac_face active)],
        h_discovered = [(ac_levelId active, nx, ny, env_dateNow env 1), (ac_levelId active, nx, ny, env_dateNow env 3)]\<rparr>"
  by (simp add: handle_move_rel_def move_lazy_def playerOf_def sendWorldState_def Let_def)

lemma handle_move_rel_saved:
  assumes acc: "move_accepted (handle_move_rel env ov st active sq dir) sq"
  shows "h_saved (handle_move_rel env ov st active sq dir)
        = [(ac_characterId active, ac_levelId active,
            fst (step (ac_x active) (ac_y active) (moveDirToAbs (ac_face active) dir)),
            snd (step (ac_x active) (ac_y active) (moveDirToAbs (ac_face active) dir)),
            ac_face active)]"
proof -
  let ?h = "handle_move_rel env ov st active sq dir"
  obtain nx ny where n: "step (ac_x active) (ac_y active) (moveDirToAbs (ac_face active) dir) = (nx, ny)"
    by (cases "step (ac_x active) (ac_y active) (moveDirToAbs (ac_face active) dir)")
  from acc have "h_saved ?h = [(ac_characterId active, ac_levelId active, nx, ny, ac_face active)]"
    by (simp add: handle_move_rel_def move_lazy_def move_accepted_def playerOf_def sendWorldState_def
        reply_only_def Let_def n split: if_splits)
  then show ?thesis by (simp add: n)
qed

lemma handle_move_abs_saved:
  assumes "handle_move_abs env ovg st active sq dir = Some out" and "move_accepted out sq"
  shows "h_saved out
        = [(ac_characterId active, ac_levelId active,
            fst (step (ac_x active) (ac_y active) (moveDirToAbs (ac_face active) dir)),
            snd (step (ac_x active) (ac_y active) (moveDirToAbs (ac_face active) dir)),
            (case dir of Abs d \<Rightarrow> d | F \<Rightarrow> ac_face active | B \<Rightarrow> ac_face active))]"
proof -
  let ?md = "moveDirToAbs (ac_face active) dir"
  let ?nf = "(case dir of Abs d \<Rightarrow> d | F \<Rightarrow> ac_face active | B \<Rightarrow> ac_face active)"
  have res: "(case dir of F \<Rightarrow> (ac_face active, ac_face active)
               | B \<Rightarrow> (oppositeOf (ac_face active), ac_face active)
               | Abs d \<Rightarrow> (d, d)) = (?md, ?nf)"
    by (cases dir) simp_all
  obtain nx ny where n: "step (ac_x active) (ac_y active) ?md = (nx, ny)"
    by (cases "step (ac_x active) (ac_y active) ?md")
  from assms show ?thesis
    unfolding handle_move_abs_def Let_def res
    by (auto simp: move_gen_def move_accepted_def sendWorldState_def reply_only_def Let_def n
        split: if_splits option.splits)
qed

lemma handle_move_abs_example:
  "handle_move_abs (env_at 1000) (ov_all_gen Open) st_authed active0 1 (Abs E)
     = Some \<lparr>h_state = st_authed\<lparr>c_cooldowns := \<lparr>moveReadyAtMs = 1500, turnReadyAtMs = 0\<rparr>\<rparr>,
        h_replies = [ActionResult True None 1,
          WorldState \<lparr>pl_levelId = 1, pl_x = 1, pl_y = 0, pl_face = E, pl_hp = 10\<rparr>
            \<lparr>moveReadyAtMs = 1500, turnReadyAtMs = 0\<rparr>],
        h_saved = [(''c1'', 1, 1, 0, E)],
        h_discovered = [(1, 1, 0, 1001), (1, 1, 0, 1003)]\<rparr>"
  by (simp add: handle_move_abs_def move_gen_def canTraverse_gen_def edgeType_gen_def env_at_def
      ov_all_gen_def ov_const_def st_authed_def active0_def sendWorldState_def traversable_def)

text \<open>
  C6, as stated, fails on the handler that passes the payload direction to the engine:
  facing north, the accepted move east persists the position (1, 0) with facing north.
\<close>

theorem abs_move_keeps_facing_counterexample:
  "move_accepted (handle_move_rel (env_at 1000) (ov_all Open) st_authed active0 1 (Abs E)) 1
   \<and> h_saved (handle_move_rel (env_at 1000) (ov_all Open) st_authed active0 1 (Abs E)) = [(''c1'', 1, 1, 0, N)]"
  by (simp add: move_accepted_def handle_move_rel_def move_lazy_def env_at_def ov_all_def ov_const_def
      st_authed_def active0_def playerOf_def sendWorldState_def canTraverseAbs_lazy_def edgeType_lazy_def
      traversable_def)

text \<open>
  C6, amended. For every accepted move intent the persisted position is one step from
  the current cell: in the current facing for F, opposite to it for B, in the payload
  direction for N, E, S, W. F and B leave the persisted facing unchanged in both
  handlers. For N, E, S, W the handler that resolves the direction itself persists
  that direction as the facing; the handler that passes the payload to
  \<^verbatim>\<open>WorldEngine.move\<close> persists the facing unchanged.
\<close>

theorem move_facing:
  "(move_accepted (handle_move_rel env ov st active sq dir) sq \<longrightarrow>
      h_saved (handle_move_rel env ov st active sq dir)
        = [(ac_characterId active, ac_levelId active,
            fst (step (ac_x active) (ac_y active) (moveDirToAbs (ac_face active) dir)),
            snd (step (ac_x active) (ac_y active) (moveDirToAbs (ac_face active) dir)),
            ac_face active)])
   \<and> (handle_move_abs env ovg st active sq dir = Some out \<and> move_accepted out sq \<longrightarrow>
      h_saved out
        = [(ac_characterId active, ac_levelId active,
            fst (step (ac_x active) (ac_y active) (moveDirToAbs (ac_face active) dir)),
            snd (step (ac_x active) (ac_y active) (moveDirToAbs (ac_face active) dir)),
            (case dir of Abs d \<Rightarrow> d | F \<Rightarrow> ac_face active | B \<Rightarrow> ac_face active))])"
  using handle_move_rel_saved handle_move_abs_saved by blast

theorem move_facing_witness:
  "h_saved (handle_move_rel (env_at 1000) (ov_all Open) st_authed active0 1 B) = [(''c1'', 1, 0, 1, N)]
   \<and> map_option h_saved (handle_move_abs (env_at 1000) (ov_all_gen Open) st_authed active0 1 (Abs E))
       = Some [(''c1'', 1, 1, 0, E)]"
proof -
  have a: "move_accepted (handle_move_rel (env_at 1000) (ov_all Open) st_authed active0 1 B) 1"
    by (simp add: move_accepted_def handle_move_rel_def move_lazy_def env_at_def ov_all_def ov_const_def
      st_authed_def active0_def playerOf_def sendWorldState_def canTraverseAbs_lazy_def edgeType_lazy_def
      traversable_def)
  note b = handle_move_abs_example
  have c: "move_accepted \<lparr>h_state = st_authed\<lparr>c_cooldowns := \<lparr>moveReadyAtMs = 1500, turnReadyAtMs = 0\<rparr>\<rparr>,
        h_replies = [ActionResult True None 1,
          WorldState \<lparr>pl_levelId = 1, pl_x = 1, pl_y = 0, pl_face = E, pl_hp = 10\<rparr>
            \<lparr>moveReadyAtMs = 1500, turnReadyAtMs = 0\<rparr>],
        h_saved = [(''c1'', 1, 1, 0, E)],
        h_discovered = [(1, 1, 0, 1001), (1, 1, 0, 1003)]\<rparr> 1"
    by (simp add: move_accepted_def)
  from move_facing [where env = "env_at 1000" and ov = "ov_all Open" and st = st_authed and active = active0
      and sq = 1 and dir = B] a
  have "h_saved (handle_move_rel (env_at 1000) (ov_all Open) st_authed active0 1 B) = [(''c1'', 1, 0, 1, N)]"
    by (simp add: active0_def)
  then show ?thesis by (simp add: b)
qed

text \<open>
  C7, as stated, fails in its last sentence when the first intent is itself refused: a
  refusal does not advance the cooldown, so with a wall ahead both intents, at 1000 and
  at 1100, are refused as blocked.
\<close>

theorem second_move_not_cooldown_counterexample:
  "h_replies (handle_move_rel (env_at 1000) (ov_all Wall) st_authed active0 1 F) = [ActionResult False (Some ''blocked'') 1]
   \<and> h_replies (handle_move_rel (env_at 1100) (ov_all Wall)
        (h_state (handle_move_rel (env_at 1000) (ov_all Wall) st_authed active0 1 F)) active0 2 F)
      = [ActionResult False (Some ''blocked'') 2]"
proof -
  have nc: "\<not> canTraverseAbs_lazy (ov_all Wall) (ac_levelId active0) (ac_x active0) (ac_y active0)
      (moveDirToAbs (ac_face active0) F)"
    by (simp add: canTraverseAbs_lazy_def edgeType_lazy_def ov_all_def ov_const_def traversable_def)
  have e1: "handle_move_rel (env_at 1000) (ov_all Wall) st_authed active0 1 F
      = \<lparr>h_state = st_authed, h_replies = [ActionResult False (Some ''blocked'') 1], h_saved = [], h_discovered = []\<rparr>"
    by (rule handle_move_rel_blocked [OF _ _ nc]) (simp_all add: env_at_def st_authed_def)
  have e2: "handle_move_rel (env_at 1100) (ov_all Wall) st_authed active0 2 F
      = \<lparr>h_state = st_authed, h_replies = [ActionResult False (Some ''blocked'') 2], h_saved = [], h_discovered = []\<rparr>"
    by (rule handle_move_rel_blocked [OF _ _ nc]) (simp_all add: env_at_def st_authed_def)
  show ?thesis by (simp add: e1 e2)
qed

text \<open>
  C7, amended. With a clock that does not run backwards between the handler's reading
  and the engine's: a move intent is refused with reason move_cooldown exactly when
  now < moveReadyAtMs, and with reason blocked exactly when the cooldown is satisfied
  and the resolved absolute edge from the current cell is not traversable; in both
  cases the connection state (so the cooldown) is unchanged, no position is saved and
  no discovery entry is inserted. With a move cooldown of 500 ms, after an accepted
  move intent at now, a move intent at now + 100 ms is refused with reason
  move_cooldown.
\<close>

theorem move_refusals:
  assumes mono: "env_dateNow env 0 \<le> env_dateNow env 1"
  shows "(h_replies (handle_move_rel env ov st active sq dir) = [ActionResult False (Some ''move_cooldown'') sq]
            \<longleftrightarrow> env_dateNow env 0 < moveReadyAtMs (c_cooldowns st))
       \<and> (h_replies (handle_move_rel env ov st active sq dir) = [ActionResult False (Some ''blocked'') sq]
            \<longleftrightarrow> \<not> env_dateNow env 0 < moveReadyAtMs (c_cooldowns st)
                \<and> \<not> canTraverseAbs_lazy ov (ac_levelId active) (ac_x active) (ac_y active)
                      (moveDirToAbs (ac_face active) dir))
       \<and> (env_dateNow env 0 < moveReadyAtMs (c_cooldowns st)
            \<or> \<not> canTraverseAbs_lazy ov (ac_levelId active) (ac_x active) (ac_y active)
                      (moveDirToAbs (ac_face active) dir)
          \<longrightarrow> h_state (handle_move_rel env ov st active sq dir) = st
              \<and> h_saved (handle_move_rel env ov st active sq dir) = []
              \<and> h_discovered (handle_move_rel env ov st active sq dir) = [])
       \<and> (env_moveCooldownMs env = 500 \<and> env_dateNow env2 0 = env_dateNow env 0 + 100
            \<and> move_accepted (handle_move_rel env ov st active sq dir) sq
          \<longrightarrow> handle_move_rel env2 ov2 (h_state (handle_move_rel env ov st active sq dir)) active2 sq2 dir2
              = reply_only (h_state (handle_move_rel env ov st active sq dir))
                  (ActionResult False (Some ''move_cooldown'') sq2))"
proof -
  let ?cool = "env_dateNow env 0 < moveReadyAtMs (c_cooldowns st)"
  let ?can = "canTraverseAbs_lazy ov (ac_levelId active) (ac_x active) (ac_y active)
                      (moveDirToAbs (ac_face active) dir)"
  obtain nx ny where n: "step (ac_x active) (ac_y active) (moveDirToAbs (ac_face active) dir) = (nx, ny)"
    by (cases "step (ac_x active) (ac_y active) (moveDirToAbs (ac_face active) dir)")
  consider (c) ?cool | (b) "\<not> ?cool" "\<not> ?can" | (k) "\<not> ?cool" ?can by blast
  then show ?thesis
  proof cases
    case c
    then show ?thesis
      by (simp add: handle_move_rel_cooldown move_accepted_def)
  next
    case b
    then show ?thesis
      by (simp add: handle_move_rel_blocked [OF b(1) mono b(2)] move_accepted_def)
  next
    case k
    show ?thesis
      by (simp add: handle_move_rel_ok [OF k(1) mono k(2) n] k move_accepted_def handle_move_rel_cooldown)
  qed
qed

theorem move_refusals_witness:
  "move_accepted (handle_move_rel (env_at 1000) (ov_all Open) st_authed active0 1 F) 1
   \<and> h_replies (handle_move_rel (env_at 1100) (ov_all Open)
        (h_state (handle_move_rel (env_at 1000) (ov_all Open) st_authed active0 1 F)) active0 2 F)
      = [ActionResult False (Some ''move_cooldown'') 2]"
proof -
  have mono: "env_dateNow (env_at 1000) 0 \<le> env_dateNow (env_at 1000) 1"
    by (simp add: env_at_def)
  have acc: "move_accepted (handle_move_rel (env_at 1000) (ov_all Open) st_authed active0 1 F) 1"
    by (simp add: move_accepted_def handle_move_rel_def move_lazy_def env_at_def ov_all_def ov_const_def
      st_authed_def active0_def playerOf_def sendWorldState_def canTraverseAbs_lazy_def edgeType_lazy_def
      traversable_def)
  have pre: "env_moveCooldownMs (env_at 1000) = 500 \<and> env_dateNow (env_at 1100) 0 = env_dateNow (env_at 1000) 0 + 100"
    by (simp add: env_at_def)
  from move_refusals [OF mono, where ov = "ov_all Open" and st = st_authed and active = active0 and sq = 1
      and dir = F and ?env2.0 = "env_at 1100" and ?ov2.0 = "ov_all Open" and ?active2.0 = active0
      and ?sq2.0 = 2 and ?dir2.0 = F] acc pre
  show ?thesis by simp
qed

subsection \<open>Visibility rays\<close>

lemma ray_as_fold:
  "ray et dir n x y out = fold (\<lambda>c acc. addCell et acc (fst c) (snd c)) (ray_cells et dir n x y) out"
  by (induction n arbitrary: x y out) (auto simp: Let_def split: prod.splits)

lemma addCell_keys:
  "fst ` set (addCell et out x y) = insert (x, y) (fst ` set out)"
  by (auto simp: addCell_def)

lemma addCell_distinct:
  "distinct (map fst out) \<Longrightarrow> distinct (map fst (addCell et out x y))"
  by (auto simp: addCell_def)

lemma addCell_resolved:
  "list_all (\<lambda>e. snd e = viewCell et (fst (fst e)) (snd (fst e))) out \<Longrightarrow>
   list_all (\<lambda>e. snd e = viewCell et (fst (fst e)) (snd (fst e))) (addCell et out x y)"
  by (auto simp: addCell_def)

lemma addCell_hd:
  "out \<noteq> [] \<Longrightarrow> addCell et out x y \<noteq> [] \<and> hd (addCell et out x y) = hd out"
  by (auto simp: addCell_def)

lemma fold_addCell_keys:
  "fst ` set (fold (\<lambda>c acc. addCell et acc (fst c) (snd c)) cs out) = set cs \<union> fst ` set out"
  by (induction cs arbitrary: out) (simp_all add: addCell_keys)

lemma fold_addCell_distinct:
  "distinct (map fst out) \<Longrightarrow> distinct (map fst (fold (\<lambda>c acc. addCell et acc (fst c) (snd c)) cs out))"
  by (induction cs arbitrary: out) (auto simp: addCell_distinct)

lemma fold_addCell_resolved:
  "list_all (\<lambda>e. snd e = viewCell et (fst (fst e)) (snd (fst e))) out \<Longrightarrow>
   list_all (\<lambda>e. snd e = viewCell et (fst (fst e)) (snd (fst e)))
     (fold (\<lambda>c acc. addCell et acc (fst c) (snd c)) cs out)"
  by (induction cs arbitrary: out) (auto simp: addCell_resolved)

lemma fold_addCell_hd:
  "out \<noteq> [] \<Longrightarrow> fold (\<lambda>c acc. addCell et acc (fst c) (snd c)) cs out \<noteq> []
     \<and> hd (fold (\<lambda>c acc. addCell et acc (fst c) (snd c)) cs out) = hd out"
  by (induction cs arbitrary: out) (auto simp: addCell_hd)

lemma omniRays_map_unfold:
  "omniRays_map et p depth =
     ray et W depth (pl_x p) (pl_y p)
       (ray et S depth (pl_x p) (pl_y p)
         (ray et E depth (pl_x p) (pl_y p)
           (ray et N depth (pl_x p) (pl_y p) [((pl_x p, pl_y p), viewCell et (pl_x p) (pl_y p))])))"
  by (simp add: omniRays_map_def addCell_def)

lemma omniRays_keys:
  "set (map fst (omniRays_map et p depth)) =
     insert (pl_x p, pl_y p)
       (set (ray_cells et N depth (pl_x p) (pl_y p)) \<union> set (ray_cells et E depth (pl_x p) (pl_y p))
        \<union> set (ray_cells et S depth (pl_x p) (pl_y p)) \<union> set (ray_cells et W depth (pl_x p) (pl_y p)))"
  by (simp add: omniRays_map_unfold ray_as_fold fold_addCell_keys) blast

lemma omniRays_distinct: "distinct (map fst (omniRays_map et p depth))"
  unfolding omniRays_map_unfold ray_as_fold
  by (intro fold_addCell_distinct) simp

lemma omniRays_resolved:
  "list_all (\<lambda>e. snd e = viewCell et (fst (fst e)) (snd (fst e))) (omniRays_map et p depth)"
  unfolding omniRays_map_unfold ray_as_fold
  by (intro fold_addCell_resolved) simp

lemma omniRays_hd:
  "omniRays_map et p depth \<noteq> [] \<and> hd (omniRays_map et p depth) = ((pl_x p, pl_y p), viewCell et (pl_x p) (pl_y p))"
  unfolding omniRays_map_unfold ray_as_fold
  by (simp add: fold_addCell_hd)

lemma steps_Suc: "steps dir (Suc k) c = step (fst (steps dir k c)) (snd (steps dir k c)) dir"
  by (induction k arbitrary: c) simp_all

lemma ray_cells_length: "length (ray_cells et dir n x y) \<le> n"
  by (induction n arbitrary: x y) (auto simp: Let_def split: prod.splits)

lemma ray_cells_nth:
  "k < length (ray_cells et dir n x y) \<Longrightarrow>
     ray_cells et dir n x y ! k = steps dir (Suc k) (x, y)
     \<and> sees_through (et (fst (steps dir k (x, y))) (snd (steps dir k (x, y))) dir)"
proof (induction n arbitrary: x y k)
  case 0
  then show ?case by simp
next
  case (Suc n)
  show ?case
  proof (cases "sees_through (et x y dir)")
    case False
    with Suc.prems show ?thesis by (simp add: sees_through_def)
  next
    case True
    obtain nx ny where n: "step x y dir = (nx, ny)" by (cases "step x y dir")
    have rc: "ray_cells et dir (Suc n) x y = (nx, ny) # ray_cells et dir n nx ny"
      using True n by (simp add: sees_through_def Let_def)
    show ?thesis
    proof (cases k)
      case 0
      with rc True n show ?thesis by simp
    next
      case (Suc k')
      with Suc.prems rc have "k' < length (ray_cells et dir n nx ny)" by simp
      from Suc.IH [OF this] Suc rc n show ?thesis by simp
    qed
  qed
qed

lemma ray_cells_stop:
  "length (ray_cells et dir n x y) < n \<Longrightarrow>
   \<not> sees_through (et (fst (steps dir (length (ray_cells et dir n x y)) (x, y)))
        (snd (steps dir (length (ray_cells et dir n x y)) (x, y))) dir)"
proof (induction n arbitrary: x y)
  case 0
  then show ?case by simp
next
  case (Suc n)
  show ?case
  proof (cases "sees_through (et x y dir)")
    case False
    then show ?thesis by (simp add: sees_through_def)
  next
    case True
    obtain nx ny where n: "step x y dir = (nx, ny)" by (cases "step x y dir")
    have rc: "ray_cells et dir (Suc n) x y = (nx, ny) # ray_cells et dir n nx ny"
      using True n by (simp add: sees_through_def Let_def)
    with Suc.prems have "length (ray_cells et dir n nx ny) < n" by simp
    from Suc.IH [OF this] rc n show ?thesis by simp
  qed
qed

lemma ray_cells_blocked:
  "\<not> sees_through (et x y dir) \<Longrightarrow> ray_cells et dir n x y = []"
  by (cases n) (simp_all add: sees_through_def)

lemma steps_coords:
  "steps N k (x, y) = (x, y - int k)" "steps S k (x, y) = (x, y + int k)"
  "steps E k (x, y) = (x + int k, y)" "steps W k (x, y) = (x - int k, y)"
  by (induction k arbitrary: x y) simp_all

lemma ray_cells_elem:
  assumes "c \<in> set (ray_cells et dir n x y)"
  shows "\<exists>k. c = steps dir (Suc k) (x, y)"
proof -
  from assms obtain k where "k < length (ray_cells et dir n x y)" "c = ray_cells et dir n x y ! k"
    by (auto simp: in_set_conv_nth)
  with ray_cells_nth [of k et dir n x y] show ?thesis by auto
qed

lemma east_neighbour_not_on_other_rays:
  "(x + 1, y) \<notin> set (ray_cells et N n x y)" "(x + 1, y) \<notin> set (ray_cells et S n x y)"
  "(x + 1, y) \<notin> set (ray_cells et W n x y)"
  using ray_cells_elem [of "(x + 1, y)" et N n x y] ray_cells_elem [of "(x + 1, y)" et S n x y]
    ray_cells_elem [of "(x + 1, y)" et W n x y]
  by (auto simp: steps_coords simp del: steps.simps)

lemma cells_keys:
  "map (\<lambda>c. (vc_x c, vc_y c)) (computeOmniRays et p depth) = map fst (omniRays_map et p depth)"
proof -
  have "list_all (\<lambda>e. snd e = viewCell et (fst (fst e)) (snd (fst e))) m \<Longrightarrow>
      map (\<lambda>c. (vc_x c, vc_y c)) (map snd m) = map fst m" for m :: CellMap
    by (induction m) (auto simp: viewCell_def)
  from this [OF omniRays_resolved] show ?thesis by (simp add: computeOmniRays_def)
qed

lemma cells_resolved:
  "list_all (\<lambda>c. c = viewCell et (vc_x c) (vc_y c)) (computeOmniRays et p depth)"
proof -
  have "list_all (\<lambda>e. snd e = viewCell et (fst (fst e)) (snd (fst e))) m \<Longrightarrow>
      list_all (\<lambda>c. c = viewCell et (vc_x c) (vc_y c)) (map snd m)" for m :: CellMap
    by (induction m) (auto simp: viewCell_def)
  from this [OF omniRays_resolved] show ?thesis by (simp add: computeOmniRays_def)
qed

lemma cells_hd:
  "computeOmniRays et p depth \<noteq> [] \<and> hd (computeOmniRays et p depth) = viewCell et (pl_x p) (pl_y p)"
  using omniRays_hd [of et p depth] by (simp add: computeOmniRays_def hd_map)

lemma cells_edges:
  "list_all (\<lambda>c. vc_edges c = \<lparr>edge_N = et (vc_x c) (vc_y c) N, edge_E = et (vc_x c) (vc_y c) E,
       edge_S = et (vc_x c) (vc_y c) S, edge_W = et (vc_x c) (vc_y c) W\<rparr>) (computeOmniRays et p depth)"
proof (rule list.pred_mono_strong [OF cells_resolved [of et p depth]])
  fix c
  assume "c = viewCell et (vc_x c) (vc_y c)"
  from arg_cong [OF this, of vc_edges]
  show "vc_edges c = \<lparr>edge_N = et (vc_x c) (vc_y c) N, edge_E = et (vc_x c) (vc_y c) E,
       edge_S = et (vc_x c) (vc_y c) S, edge_W = et (vc_x c) (vc_y c) W\<rparr>"
    by (simp add: viewCell_def)
qed

lemma cells_hd_edges:
  "hd (computeOmniRays et p depth) = \<lparr>vc_x = pl_x p, vc_y = pl_y p,
     vc_edges = \<lparr>edge_N = et (pl_x p) (pl_y p) N, edge_E = et (pl_x p) (pl_y p) E,
       edge_S = et (pl_x p) (pl_y p) S, edge_W = et (pl_x p) (pl_y p) W\<rparr>\<rparr>"
  using cells_hd [of et p depth] by (simp add: viewCell_def)

lemma visible_example:
  "visibleCells_lazy ov_door_east player0
     = [\<lparr>vc_x = 0, vc_y = 0,
         vc_edges = \<lparr>edge_N = Open, edge_E = DoorUnlocked, edge_S = Wall, edge_W = Wall\<rparr>\<rparr>,
        \<lparr>vc_x = 0, vc_y = - 1,
         vc_edges = \<lparr>edge_N = Wall, edge_E = Wall, edge_S = Wall, edge_W = Wall\<rparr>\<rparr>]"
  by (simp add: visibleCells_lazy_def computeOmniRays_def omniRays_map_def addCell_def player0_def
      edgeType_lazy_def ov_door_east_def ov_const_def numeral_3_eq_3 viewCell_def)

text \<open>
  C8. The ray walk starts at the player cell: the first cell recorded is the player's,
  with the kinds of its north, east, south and west edges as \<^verbatim>\<open>edgeType\<close> answers them
  for visibility; the cells it records are the player cell
  and the cells of the four rays; a ray has at most 3 cells, its \<open>k\<close>-th cell is
  \<open>k + 1\<close> steps from the player and is reached only through forward edges that are
  open or lever_secret, and a ray shorter than 3 ended at an edge that is neither; a
  wall or a door of either kind as forward edge ends the ray at once, so an unlocked
  door east of the player leaves the east ray without a cell beyond the player's and
  the cell east of the player unrecorded; every recorded cell is recorded once, and
  each of the four edges recorded with a cell is the kind \<^verbatim>\<open>edgeType\<close> answers for
  that cell and direction.
\<close>

theorem visibility_rays:
  "computeOmniRays et p 3 \<noteq> []
   \<and> hd (computeOmniRays et p 3) = \<lparr>vc_x = pl_x p, vc_y = pl_y p,
        vc_edges = \<lparr>edge_N = et (pl_x p) (pl_y p) N, edge_E = et (pl_x p) (pl_y p) E,
          edge_S = et (pl_x p) (pl_y p) S, edge_W = et (pl_x p) (pl_y p) W\<rparr>\<rparr>
   \<and> set (map (\<lambda>c. (vc_x c, vc_y c)) (computeOmniRays et p 3)) =
       insert (pl_x p, pl_y p)
         (set (ray_cells et N 3 (pl_x p) (pl_y p)) \<union> set (ray_cells et E 3 (pl_x p) (pl_y p))
          \<union> set (ray_cells et S 3 (pl_x p) (pl_y p)) \<union> set (ray_cells et W 3 (pl_x p) (pl_y p)))
   \<and> length (ray_cells et dir 3 (pl_x p) (pl_y p)) \<le> 3
   \<and> (k < length (ray_cells et dir 3 (pl_x p) (pl_y p)) \<longrightarrow>
        ray_cells et dir 3 (pl_x p) (pl_y p) ! k = steps dir (Suc k) (pl_x p, pl_y p)
        \<and> sees_through (et (fst (steps dir k (pl_x p, pl_y p))) (snd (steps dir k (pl_x p, pl_y p))) dir))
   \<and> (length (ray_cells et dir 3 (pl_x p) (pl_y p)) < 3 \<longrightarrow>
        \<not> sees_through (et (fst (steps dir (length (ray_cells et dir 3 (pl_x p) (pl_y p))) (pl_x p, pl_y p)))
            (snd (steps dir (length (ray_cells et dir 3 (pl_x p) (pl_y p))) (pl_x p, pl_y p))) dir))
   \<and> (et x y dir = Wall \<or> et x y dir = DoorLocked \<or> et x y dir = DoorUnlocked \<longrightarrow>
        ray_cells et dir n x y = [])
   \<and> (et (pl_x p) (pl_y p) E = DoorUnlocked \<longrightarrow>
        ray_cells et E 3 (pl_x p) (pl_y p) = []
        \<and> (pl_x p + 1, pl_y p) \<notin> set (map (\<lambda>c. (vc_x c, vc_y c)) (computeOmniRays et p 3)))
   \<and> distinct (map (\<lambda>c. (vc_x c, vc_y c)) (computeOmniRays et p 3))
   \<and> list_all (\<lambda>c. vc_edges c = \<lparr>edge_N = et (vc_x c) (vc_y c) N, edge_E = et (vc_x c) (vc_y c) E,
          edge_S = et (vc_x c) (vc_y c) S, edge_W = et (vc_x c) (vc_y c) W\<rparr>) (computeOmniRays et p 3)"
proof -
  have blocked: "et x y dir = Wall \<or> et x y dir = DoorLocked \<or> et x y dir = DoorUnlocked \<longrightarrow>
        ray_cells et dir n x y = []"
    by (auto intro!: ray_cells_blocked simp: sees_through_def)
  have door: "et (pl_x p) (pl_y p) E = DoorUnlocked \<longrightarrow>
        ray_cells et E 3 (pl_x p) (pl_y p) = []
        \<and> (pl_x p + 1, pl_y p) \<notin> set (map (\<lambda>c. (vc_x c, vc_y c)) (computeOmniRays et p 3))"
  proof
    assume d: "et (pl_x p) (pl_y p) E = DoorUnlocked"
    then have e: "ray_cells et E 3 (pl_x p) (pl_y p) = []"
      by (intro ray_cells_blocked) (simp add: sees_through_def)
    show "ray_cells et E 3 (pl_x p) (pl_y p) = []
        \<and> (pl_x p + 1, pl_y p) \<notin> set (map (\<lambda>c. (vc_x c, vc_y c)) (computeOmniRays et p 3))"
      unfolding cells_keys omniRays_keys
      using e east_neighbour_not_on_other_rays [of "pl_x p" "pl_y p" et 3] by simp
  qed
  show ?thesis
    using cells_hd [of et p 3] cells_hd_edges [of et p 3] ray_cells_length [of et dir 3 "pl_x p" "pl_y p"]
      ray_cells_nth [of k et dir 3 "pl_x p" "pl_y p"] ray_cells_stop [of et dir 3 "pl_x p" "pl_y p"]
      blocked door omniRays_distinct [of et p 3] cells_edges [of et p 3] omniRays_keys [of et p 3]
    unfolding cells_keys by blast
qed

theorem visibility_rays_witness:
  "ray_cells (\<lambda>x y dir. edgeType_lazy ov_door_east 1 x y dir Visibility) E 3 0 0 = []
   \<and> (1, 0) \<notin> set (map (\<lambda>c. (vc_x c, vc_y c)) (visibleCells_lazy ov_door_east player0))
   \<and> visibleCells_lazy ov_door_east player0
       = [\<lparr>vc_x = 0, vc_y = 0,
           vc_edges = \<lparr>edge_N = Open, edge_E = DoorUnlocked, edge_S = Wall, edge_W = Wall\<rparr>\<rparr>,
          \<lparr>vc_x = 0, vc_y = - 1,
           vc_edges = \<lparr>edge_N = Wall, edge_E = Wall, edge_S = Wall, edge_W = Wall\<rparr>\<rparr>]"
proof -
  let ?et = "\<lambda>x y dir. edgeType_lazy ov_door_east 1 x y dir Visibility"
  have d: "?et (pl_x player0) (pl_y player0) E = DoorUnlocked"
    by (simp add: edgeType_lazy_def ov_door_east_def ov_const_def player0_def)
  have v: "visibleCells_lazy ov_door_east player0 = computeOmniRays ?et player0 3"
    by (simp add: visibleCells_lazy_def player0_def)
  have px: "pl_x player0 = 0" "pl_y player0 = 0"
    by (simp_all add: player0_def)
  from visibility_rays [where et = ?et and p = player0 and dir = N and k = 0 and x = 0 and y = 0 and n = 3] d
  have "ray_cells ?et E 3 (pl_x player0) (pl_y player0) = []
      \<and> (pl_x player0 + 1, pl_y player0) \<notin> set (map (\<lambda>c. (vc_x c, vc_y c)) (computeOmniRays ?et player0 3))"
    by blast
  then have "ray_cells ?et E 3 0 0 = []
      \<and> (1, 0) \<notin> set (map (\<lambda>c. (vc_x c, vc_y c)) (visibleCells_lazy ov_door_east player0))"
    by (simp add: px v)
  then show ?thesis
    by (simp add: visible_example)
qed

subsection \<open>The maze generator returns\<close>

lemma u8_set_length [simp]: "length (u8_set a i v) = length a"
  by (simp add: u8_set_def)

lemma setEast_length [simp]: "length (setEast a x y v) = length a"
  by (simp add: setEast_def)

lemma setSouth_length [simp]: "length (setSouth a x y v) = length a"
  by (simp add: setSouth_def)

lemma openBetween_length:
  "openBetween (ea, so) x y d v = (ea', so') \<Longrightarrow> length ea' = length ea \<and> length so' = length so"
  by (cases d) auto

lemma count_zero_update:
  "i < length xs \<Longrightarrow> xs ! i = (0 :: 8 word) \<Longrightarrow> v \<noteq> 0 \<Longrightarrow>
   Suc (count_list (xs[i := v]) 0) = count_list xs 0"
proof (induction xs arbitrary: i)
  case Nil
  then show ?case by simp
next
  case (Cons a xs)
  then show ?case by (cases i) auto
qed

lemma inBounds_idx: "inBounds x y \<Longrightarrow> 0 \<le> idx x y \<and> idx x y < 4096"
  by (auto simp: inBounds_def idx_def CHUNK_SIZE_def)

lemma carve_body_step:
  assumes inv: "carve_inv st" and ne: "cs_stack st \<noteq> []"
  shows "carve_inv (carve_body st) \<and> carve_measure (carve_body st) < carve_measure st"
proof -
  obtain dirs' rng' where sh: "shuffleInPlace (cs_dirs st) (cs_rng st) = (dirs', rng')"
    by (cases "shuffleInPlace (cs_dirs st) (cs_rng st)")
  let ?cur = "last (cs_stack st)"
  show ?thesis
  proof (cases "find (carve_free (cs_visited st) ?cur) dirs'")
    case None
    then have b: "carve_body st = st\<lparr>cs_rng := rng', cs_dirs := dirs', cs_stack := butlast (cs_stack st)\<rparr>"
      by (simp add: carve_body_def sh)
    from ne have "length (butlast (cs_stack st)) < length (cs_stack st)" by (cases "cs_stack st") auto
    with inv show ?thesis by (simp add: b carve_inv_def carve_measure_def)
  next
    case (Some d)
    obtain nx ny where n: "stepLocal (fst ?cur) (snd ?cur) d = (nx, ny)"
      by (cases "stepLocal (fst ?cur) (snd ?cur) d")
    obtain ea so where ob: "openBetween (cs_east st, cs_south st) (fst ?cur) (snd ?cur) d EDGE_OPEN = (ea, so)"
      by (cases "openBetween (cs_east st, cs_south st) (fst ?cur) (snd ?cur) d EDGE_OPEN")
    from Some have "carve_free (cs_visited st) ?cur d" by (auto simp: find_Some_iff)
    with n have free: "inBounds nx ny" "u8_get (cs_visited st) (idx nx ny) = 0"
      by (simp_all add: carve_free_def)
    have b: "carve_body st = st\<lparr>cs_rng := rng', cs_dirs := dirs', cs_east := ea, cs_south := so,
                    cs_visited := u8_set (cs_visited st) (idx nx ny) 1,
                    cs_stack := cs_stack st @ [(nx, ny)]\<rparr>"
      by (simp add: carve_body_def sh Some n ob)
    from inv have len: "length (cs_visited st) = 4096" by (simp add: carve_inv_def)
    from inBounds_idx [OF free(1)] have ir: "0 \<le> idx nx ny" "idx nx ny < 4096" by auto
    then have nat_i: "nat (idx nx ny) < length (cs_visited st)" using len by simp
    from free(2) ir len have z: "cs_visited st ! nat (idx nx ny) = 0" by (simp add: u8_get_def)
    have set_eq: "u8_set (cs_visited st) (idx nx ny) 1 = (cs_visited st)[nat (idx nx ny) := 1]"
      using ir len by (simp add: u8_set_def)
    have cnt: "Suc (count_list (u8_set (cs_visited st) (idx nx ny) 1) 0) = count_list (cs_visited st) 0"
      unfolding set_eq by (rule count_zero_update [OF nat_i z]) simp
    from openBetween_length [OF ob] inv have "length ea = 4096 \<and> length so = 4096"
      by (simp add: carve_inv_def)
    with inv cnt show ?thesis
      by (simp add: b carve_inv_def carve_measure_def)
  qed
qed

lemma carve_loop_returns:
  assumes "carve_inv st"
  shows "\<exists>t. carve_loop st = Some t \<and> carve_inv t"
proof -
  have "\<exists>t. while_option (\<lambda>s. cs_stack s \<noteq> []) carve_body st = Some t"
    by (rule measure_while_option_Some [where P = carve_inv and f = carve_measure])
      (use assms carve_body_step in auto)
  then obtain t where t: "carve_loop st = Some t" by (auto simp: carve_loop_def)
  have "carve_inv t"
    by (rule while_option_rule [where P = carve_inv and b = "\<lambda>s. cs_stack s \<noteq> []" and c = carve_body and s = st])
      (use t assms carve_body_step in \<open>auto simp: carve_loop_def\<close>)
  with t show ?thesis by blast
qed

lemma carve_room_cell_length:
  "carve_room_cell x0 y0 w h c (ea, so) = (ea', so') \<Longrightarrow> length ea' = length ea \<and> length so' = length so"
  by (auto simp: carve_room_cell_def split: prod.splits if_splits)

lemma fold_carve_room_cell_length:
  "fold (carve_room_cell x0 y0 w h) cs (ea, so) = (ea', so') \<Longrightarrow> length ea' = length ea \<and> length so' = length so"
proof (induction cs arbitrary: ea so)
  case Nil
  then show ?case by simp
next
  case (Cons c cs)
  obtain ea1 so1 where c1: "carve_room_cell x0 y0 w h c (ea, so) = (ea1, so1)"
    by (cases "carve_room_cell x0 y0 w h c (ea, so)")
  from Cons.prems have "fold (carve_room_cell x0 y0 w h) cs (ea1, so1) = (ea', so')" by (simp add: c1)
  from Cons.IH [OF this] carve_room_cell_length [OF c1] show ?case by simp
qed

lemma roomInterior_length:
  "roomInterior x0 y0 w h (ea, so) = (ea', so') \<Longrightarrow> length ea' = length ea \<and> length so' = length so"
  unfolding roomInterior_def by (rule fold_carve_room_cell_length)

lemma roomOpening_ok: "grid_ok st \<Longrightarrow> grid_ok (roomOpening x0 y0 w h st)"
  by (auto simp: grid_ok_def roomOpening_def Let_def split: prod.split)

lemma carveRoom_attempt_ok:
  assumes "grid_ok st"
  shows "grid_ok (carveRoom_attempt st)"
proof -
  obtain ea so r0 where st: "st = (ea, so, r0)" by (cases st)
  obtain roll r1 where f: "float01 r0 = (roll, r1)" by (cases "float01 r0")
  obtain w h r2 where rs: "roomSize roll r1 = ((w, h), r2)" by (cases "roomSize roll r1") auto
  obtain x0 r3 where x: "rng_int r2 1 (CHUNK_SIZE - w - 1) = (x0, r3)" by (cases "rng_int r2 1 (CHUNK_SIZE - w - 1)")
  obtain y0 r4 where y: "rng_int r3 1 (CHUNK_SIZE - h - 1) = (y0, r4)" by (cases "rng_int r3 1 (CHUNK_SIZE - h - 1)")
  obtain ea1 so1 where ri: "roomInterior x0 y0 w h (ea, so) = (ea1, so1)" by (cases "roomInterior x0 y0 w h (ea, so)")
  have ca: "carveRoom_attempt st = roomOpening x0 y0 w h (ea1, so1, r4)"
    by (simp add: carveRoom_attempt_def st f rs x y ri)
  from roomInterior_length [OF ri] assms have "grid_ok (ea1, so1, r4)" by (simp add: grid_ok_def st)
  then show ?thesis unfolding ca by (rule roomOpening_ok)
qed

lemma carveRooms_ok: "grid_ok st \<Longrightarrow> grid_ok (carveRooms st)"
proof -
  have "grid_ok st \<Longrightarrow> grid_ok (fold (\<lambda>_. carveRoom_attempt) ks st)" for ks :: "nat list"
    by (induction ks arbitrary: st) (simp_all add: carveRoom_attempt_ok)
  then show "grid_ok st \<Longrightarrow> grid_ok (carveRooms st)" by (simp add: carveRooms_def)
qed

lemma placeDoor_cell_ok: "grid_ok st \<Longrightarrow> grid_ok (placeDoor_cell c st)"
  by (auto simp: grid_ok_def placeDoor_cell_def Let_def split: prod.split)

lemma placeDoors_ok: "grid_ok st \<Longrightarrow> grid_ok (placeDoors st)"
proof -
  have "grid_ok st \<Longrightarrow> grid_ok (fold placeDoor_cell cs st)" for cs
    by (induction cs arbitrary: st) (simp_all add: placeDoor_cell_ok)
  then show "grid_ok st \<Longrightarrow> grid_ok (placeDoors st)" by (simp add: placeDoors_def)
qed

lemma generateChunkMaze_returns:
  "\<exists>ch. generateChunkMaze seed levelId chunkX chunkY = Some ch
     \<and> length (east ch) = 4096 \<and> length (south ch) = 4096"
proof -
  define r0 where "r0 = XorShift32_new (hashSeed seed levelId chunkX chunkY ''maze'')"
  obtain sx r1 where s1: "rng_int r0 0 CHUNK_SIZE = (sx, r1)" by (cases "rng_int r0 0 CHUNK_SIZE")
  obtain sy r2 where s2: "rng_int r1 0 CHUNK_SIZE = (sy, r2)" by (cases "rng_int r1 0 CHUNK_SIZE")
  define st0 where "st0 = \<lparr>cs_rng = r2, cs_dirs = [N, E, S, W], cs_stack = [(sx, sy)],
       cs_visited = u8_set (replicate (nat (CHUNK_SIZE * CHUNK_SIZE)) 0) (idx sx sy) 1,
       cs_east = replicate (nat (CHUNK_SIZE * CHUNK_SIZE)) 0,
       cs_south = replicate (nat (CHUNK_SIZE * CHUNK_SIZE)) 0\<rparr>"
  have "carve_inv st0" by (simp add: carve_inv_def st0_def CHUNK_SIZE_def)
  from carve_loop_returns [OF this] obtain t where t: "carve_loop st0 = Some t" "carve_inv t" by blast
  obtain ea so r where pd: "placeDoors (carveRooms (cs_east t, cs_south t, cs_rng t)) = (ea, so, r)"
    by (cases "placeDoors (carveRooms (cs_east t, cs_south t, cs_rng t))")
  from t(2) have "grid_ok (cs_east t, cs_south t, cs_rng t)" by (simp add: grid_ok_def carve_inv_def)
  then have "grid_ok (placeDoors (carveRooms (cs_east t, cs_south t, cs_rng t)))"
    by (intro placeDoors_ok carveRooms_ok)
  with pd have len: "length ea = 4096" "length so = 4096" by (simp_all add: grid_ok_def)
  have "generateChunkMaze seed levelId chunkX chunkY
      = Some \<lparr>ch_seed = seed, ch_levelId = levelId, ch_chunkX = chunkX, ch_chunkY = chunkY, east = ea, south = so\<rparr>"
    unfolding generateChunkMaze_def Let_def r0_def [symmetric] s1 s2 prod.case st0_def [symmetric] t(1) option.case pd
    by simp
  with len show ?thesis by simp
qed

subsection \<open>Local coordinates and the generator engine\<close>

lemma succ_mod:
  fixes x :: int
  assumes "x mod 64 \<noteq> 63"
  shows "(x + 1) mod 64 = x mod 64 + 1" "(x + 1) div 64 = x div 64"
proof -
  have r: "0 \<le> x mod 64" "x mod 64 < 64" by simp_all
  with assms have r1: "0 \<le> x mod 64 + 1" "x mod 64 + 1 < 64" by simp_all
  have e: "x + 1 = 64 * (x div 64) + (x mod 64 + 1)" by simp
  show "(x + 1) mod 64 = x mod 64 + 1"
    by (subst e) (simp only: mod_mult_self4 mod_pos_pos_trivial [OF r1])
  have "(64 * (x div 64) + (x mod 64 + 1)) div 64 = x div 64 + (x mod 64 + 1) div 64"
    by (rule div_mult_self4) simp
  also have "(x mod 64 + 1) div 64 = 0" by (rule div_pos_pos_trivial [OF r1])
  finally show "(x + 1) div 64 = x div 64" unfolding e [symmetric] by simp
qed

lemma pred_mod:
  fixes x :: int
  assumes "x mod 64 \<noteq> 0"
  shows "(x - 1) mod 64 = x mod 64 - 1" "(x - 1) div 64 = x div 64"
proof -
  have r: "0 \<le> x mod 64" "x mod 64 < 64" by simp_all
  with assms have r1: "0 \<le> x mod 64 - 1" "x mod 64 - 1 < 64" by simp_all
  have e: "x - 1 = 64 * (x div 64) + (x mod 64 - 1)" by simp
  show "(x - 1) mod 64 = x mod 64 - 1"
    by (subst e) (simp only: mod_mult_self4 mod_pos_pos_trivial [OF r1])
  have "(64 * (x div 64) + (x mod 64 - 1)) div 64 = x div 64 + (x mod 64 - 1) div 64"
    by (rule div_mult_self4) simp
  also have "(x mod 64 - 1) div 64 = 0" by (rule div_pos_pos_trivial [OF r1])
  finally show "(x - 1) div 64 = x div 64" unfolding e [symmetric] by simp
qed

lemma wrap_mod:
  fixes x :: int
  shows "((x - 1) mod 64 = 63) = (x mod 64 = 0)" "((x + 1) mod 64 = 0) = (x mod 64 = 63)"
proof -
  have r: "0 \<le> x mod 64" "x mod 64 < 64" by simp_all
  show "((x - 1) mod 64 = 63) = (x mod 64 = 0)"
  proof (cases "x mod 64 = 0")
    case True
    have "x - 1 = 64 * (x div 64 - 1) + 63" using True
      by (simp add: algebra_simps) (metis True add.right_neutral mult.commute mult_div_mod_eq)
    then have "(x - 1) mod 64 = 63" by (simp only: mod_mult_self4) simp
    with True show ?thesis by simp
  next
    case False
    from pred_mod(1) [OF False] r False show ?thesis by simp
  qed
  show "((x + 1) mod 64 = 0) = (x mod 64 = 63)"
  proof (cases "x mod 64 = 63")
    case True
    have "x + 1 = 64 * (x div 64 + 1) + 0" using True
      by (simp add: algebra_simps) (metis True add.commute mult.commute mult_div_mod_eq add.assoc numeral_plus_one)
    then have "(x + 1) mod 64 = 0" by (simp only: mod_mult_self4) simp
    with True show ?thesis by simp
  next
    case False
    from succ_mod(1) [OF False] r False show ?thesis by simp
  qed
qed

lemma neg_mod: "(if - ((- x) mod 64) < 0 then - ((- x) mod 64) + 64 else - ((- x) mod 64)) = (x::int) mod 64"
  by (simp add: zmod_zminus1_eq_if)

lemma mod_ts_64: "mod_ts x CHUNK_SIZE = x mod 64"
proof -
  consider "x < 0" | "x = 0" | "0 < x" by linarith
  then show ?thesis
  proof cases
    case 1
    then have "js_rem x 64 = - ((- x) mod 64)" by (simp add: js_rem_def)
    moreover have "(if - ((- x) mod 64) < 0 then - ((- x) mod 64) + 64 else - ((- x) mod 64)) = x mod 64"
      by (rule neg_mod)
    ultimately show ?thesis by (simp add: mod_ts_def CHUNK_SIZE_def Let_def)
  next
    case 2
    then show ?thesis by (simp add: mod_ts_def js_rem_def CHUNK_SIZE_def)
  next
    case 3
    then have "js_rem x 64 = x mod 64" by (simp add: js_rem_def)
    moreover have "\<not> x mod 64 < 0" by simp
    ultimately show ?thesis by (simp add: mod_ts_def CHUNK_SIZE_def Let_def)
  qed
qed

lemma js_rem_8: "0 \<le> l \<Longrightarrow> js_rem l 8 = l mod 8"
  by (simp add: js_rem_def sgn_if)

lemma local_range: "0 \<le> mod_ts x CHUNK_SIZE \<and> mod_ts x CHUNK_SIZE < 64"
  by (simp add: mod_ts_64)

lemma edgeType_gen_plain:
  assumes "ov levelId x y dir = None"
    and "generateChunkMaze seed levelId (x div 64) (y div 64) = Some chunk"
  shows "edgeType_gen seed ov levelId x y dir = Some
     (if hub_forced x y dir then Open
      else if dir = E \<and> x mod 64 = 63 then boundary_kind (y mod 64)
      else if dir = W \<and> x mod 64 = 0 then boundary_kind (y mod 64)
      else if dir = S \<and> y mod 64 = 63 then boundary_kind (x mod 64)
      else if dir = N \<and> y mod 64 = 0 then boundary_kind (x mod 64)
      else baseEdgeTypeFromChunk chunk (x mod 64) (y mod 64) dir)"
proof -
  have fd: "floorDiv x CHUNK_SIZE = x div 64" "floorDiv y CHUNK_SIZE = y div 64"
    by (simp_all add: floorDiv_def CHUNK_SIZE_def)
  have r: "js_rem (x mod 64) 8 = (x mod 64) mod 8" "js_rem (y mod 64) 8 = (y mod 64) mod 8"
    by (simp_all add: js_rem_8)
  show ?thesis
    unfolding edgeType_gen_def Let_def fd mod_ts_64 r assms option.case
    by (simp add: hub_forced_def boundary_kind_def CHUNK_SIZE_def)
qed

lemma opposite_eq [simp]: "opposite d = oppositeOf d"
  by (cases d) (simp_all add: opposite_def)


lemma mirror_neq: "mirror k \<noteq> k"
  by (cases k rule: prod_cases4) (rename_tac l x y d, case_tac d, simp_all add: mirror_def)

lemma writeEdgeBothWays_map:
  "writeEdgeBothWays store levelId x y dir et meta now =
     (store((levelId, x, y, dir) \<mapsto>
         \<lparr>row_edge_type = et, row_lockDifficulty = None, row_keyMonsterEntityId = None,
          row_defaultStateOnReset = False, row_meta = meta, row_updated_at_ms = now\<rparr>))
       (mirror (levelId, x, y, dir) \<mapsto>
         \<lparr>row_edge_type = et, row_lockDifficulty = None, row_keyMonsterEntityId = None,
          row_defaultStateOnReset = False, row_meta = meta, row_updated_at_ms = now\<rparr>)"
  by (cases "step x y dir") (simp add: writeEdgeBothWays_def upsertEdge_def mirror_def)



lemma hub_forced_mirror:
  "hub_forced (fst (step x y dir)) (snd (step x y dir)) (oppositeOf dir) = hub_forced x y dir"
  by (cases dir) (auto simp: hub_forced_def)

lemma base_mirror:
  assumes "\<not> (dir = E \<and> x mod 64 = 63)" "\<not> (dir = W \<and> x mod 64 = 0)"
    "\<not> (dir = S \<and> y mod 64 = 63)" "\<not> (dir = N \<and> y mod 64 = 0)"
  shows "baseEdgeTypeFromChunk chunk (fst (step x y dir) mod 64) (snd (step x y dir) mod 64) (oppositeOf dir)
       = baseEdgeTypeFromChunk chunk (x mod 64) (y mod 64) dir
     \<and> fst (step x y dir) div 64 = x div 64 \<and> snd (step x y dir) div 64 = y div 64"
proof -
  have rx: "0 \<le> x mod 64" "x mod 64 < 64" and ry: "0 \<le> y mod 64" "y mod 64 < 64" by simp_all
  show ?thesis
  proof (cases dir)
    case E
    with assms have ne: "x mod 64 \<noteq> 63" by simp
    with rx have lt: "x mod 64 + 1 < 64" "x mod 64 + 1 \<noteq> 0" by linarith+
    from ne have "(x + 1) mod 64 = x mod 64 + 1" "(x + 1) div 64 = x div 64" by (rule succ_mod)+
    then show ?thesis using E rx ry lt
      by (simp add: baseEdgeTypeFromChunk_def inBounds_def CHUNK_SIZE_def)
  next
    case W
    with assms have ne: "x mod 64 \<noteq> 0" by simp
    with rx have lt: "0 \<le> x mod 64 - 1" "x mod 64 - 1 < 64" by linarith+
    from ne have "(x - 1) mod 64 = x mod 64 - 1" "(x - 1) div 64 = x div 64" by (rule pred_mod)+
    then show ?thesis using W rx ry lt ne
      by (simp add: baseEdgeTypeFromChunk_def inBounds_def CHUNK_SIZE_def)
  next
    case S
    with assms have ne: "y mod 64 \<noteq> 63" by simp
    with ry have lt: "y mod 64 + 1 < 64" "y mod 64 + 1 \<noteq> 0" by linarith+
    from ne have "(y + 1) mod 64 = y mod 64 + 1" "(y + 1) div 64 = y div 64" by (rule succ_mod)+
    then show ?thesis using S rx ry lt
      by (simp add: baseEdgeTypeFromChunk_def inBounds_def CHUNK_SIZE_def)
  next
    case N
    with assms have ne: "y mod 64 \<noteq> 0" by simp
    with ry have lt: "0 \<le> y mod 64 - 1" "y mod 64 - 1 < 64" by linarith+
    from ne have "(y - 1) mod 64 = y mod 64 - 1" "(y - 1) div 64 = y div 64" by (rule pred_mod)+
    then show ?thesis using N rx ry lt ne
      by (simp add: baseEdgeTypeFromChunk_def inBounds_def CHUNK_SIZE_def)
  qed
qed

lemma boundary_mirror:
  "(oppositeOf dir = E \<and> fst (step x y dir) mod 64 = 63) = (dir = W \<and> x mod 64 = 0)"
  "(oppositeOf dir = W \<and> fst (step x y dir) mod 64 = 0) = (dir = E \<and> x mod 64 = 63)"
  "(oppositeOf dir = S \<and> snd (step x y dir) mod 64 = 63) = (dir = N \<and> y mod 64 = 0)"
  "(oppositeOf dir = N \<and> snd (step x y dir) mod 64 = 0) = (dir = S \<and> y mod 64 = 63)"
proof -
  note a = wrap_mod
  show "(oppositeOf dir = E \<and> fst (step x y dir) mod 64 = 63) = (dir = W \<and> x mod 64 = 0)"
    by (cases dir) (simp_all add: a)
  show "(oppositeOf dir = W \<and> fst (step x y dir) mod 64 = 0) = (dir = E \<and> x mod 64 = 63)"
    by (cases dir) (simp_all add: a)
  show "(oppositeOf dir = S \<and> snd (step x y dir) mod 64 = 63) = (dir = N \<and> y mod 64 = 0)"
    by (cases dir) (simp_all add: a)
  show "(oppositeOf dir = N \<and> snd (step x y dir) mod 64 = 0) = (dir = S \<and> y mod 64 = 63)"
    by (cases dir) (simp_all add: a)
qed

lemma orth_mirror:
  "dir = E \<or> dir = W \<Longrightarrow> snd (step x y dir) = y"
  "dir = S \<or> dir = N \<Longrightarrow> fst (step x y dir) = x"
  by (cases dir, simp_all)+

lemma edgeType_gen_mirror:
  assumes none: "ov levelId x y dir = None"
    and nonem: "ov levelId (fst (step x y dir)) (snd (step x y dir)) (oppositeOf dir) = None"
  shows "edgeType_gen seed ov levelId (fst (step x y dir)) (snd (step x y dir)) (oppositeOf dir)
       = edgeType_gen seed ov levelId x y dir"
proof -
  let ?nx = "fst (step x y dir)" and ?ny = "snd (step x y dir)"
  obtain chunk where c: "generateChunkMaze seed levelId (x div 64) (y div 64) = Some chunk"
    using generateChunkMaze_returns by blast
  obtain chunk' where c': "generateChunkMaze seed levelId (?nx div 64) (?ny div 64) = Some chunk'"
    using generateChunkMaze_returns by blast
  note l = edgeType_gen_plain [where ov = ov and levelId = levelId and x = x and y = y and dir = dir, OF none c]
  note r = edgeType_gen_plain [where ov = ov and levelId = levelId and x = ?nx and y = ?ny
      and dir = "oppositeOf dir", OF nonem c']
  consider (e) "dir = E" "x mod 64 = 63" | (w) "dir = W" "x mod 64 = 0"
    | (s) "dir = S" "y mod 64 = 63" | (n) "dir = N" "y mod 64 = 0"
    | (inner) "(dir = E \<and> x mod 64 = 63) = False" "(dir = W \<and> x mod 64 = 0) = False"
        "(dir = S \<and> y mod 64 = 63) = False" "(dir = N \<and> y mod 64 = 0) = False"
    by blast
  then show ?thesis
  proof cases
    case e
    then show ?thesis unfolding l r hub_forced_mirror boundary_mirror by simp
  next
    case w
    then show ?thesis unfolding l r hub_forced_mirror boundary_mirror by simp
  next
    case s
    then show ?thesis unfolding l r hub_forced_mirror boundary_mirror by simp
  next
    case n
    then show ?thesis unfolding l r hub_forced_mirror boundary_mirror by simp
  next
    case inner
    then have b: "\<not> (dir = E \<and> x mod 64 = 63)" "\<not> (dir = W \<and> x mod 64 = 0)"
      "\<not> (dir = S \<and> y mod 64 = 63)" "\<not> (dir = N \<and> y mod 64 = 0)" by simp_all
    from base_mirror [OF b] c c' have cc: "chunk' = chunk" by simp
    from base_mirror [OF b, of chunk]
    have bm: "baseEdgeTypeFromChunk chunk (?nx mod 64) (?ny mod 64) (oppositeOf dir)
        = baseEdgeTypeFromChunk chunk (x mod 64) (y mod 64) dir" by simp
    show ?thesis
      unfolding l r hub_forced_mirror boundary_mirror cc bm inner by simp
  qed
qed

subsection \<open>The seed hub\<close>

lemma edgeType_gen_returns: "\<exists>e. edgeType_gen seed ov levelId x y dir = Some e"
proof (cases "ov levelId x y dir")
  case None
  obtain chunk where c: "generateChunkMaze seed levelId (x div 64) (y div 64) = Some chunk"
    using generateChunkMaze_returns by blast
  from edgeType_gen_plain [where ov = ov and levelId = levelId and x = x and y = y and dir = dir, OF None c]
  show ?thesis by blast
next
  case (Some a)
  then show ?thesis by (simp add: edgeType_gen_def)
qed

lemma rng_int_range:
  assumes "lo < hi"
  shows "lo \<le> fst (rng_int s lo hi) \<and> fst (rng_int s lo hi) < hi"
proof -
  obtain v s' where n: "nextU32 s = (v, s')" by (cases "nextU32 s")
  from assms have "0 \<le> uint v mod (hi - lo)" "uint v mod (hi - lo) < hi - lo" by simp_all
  with assms show ?thesis by (simp add: rng_int_def n)
qed

lemma shuffle_from_set:
  "i < length arr \<Longrightarrow> set (fst (shuffle_from i arr s)) = set arr \<and> length (fst (shuffle_from i arr s)) = length arr"
proof (induction i arbitrary: arr s)
  case 0
  then show ?case by simp
next
  case (Suc i)
  obtain j s' where r: "rng_int s 0 (int (Suc i) + 1) = (j, s')" by (cases "rng_int s 0 (int (Suc i) + 1)")
  from rng_int_range [of 0 "int (Suc i) + 1" s] r have j: "0 \<le> j" "j < int (Suc i) + 1" by simp_all
  then have nj: "nat j < length arr" using Suc.prems by linarith
  let ?arr2 = "arr[Suc i := arr ! nat j, nat j := arr ! Suc i]"
  have sw: "set ?arr2 = set arr" "length ?arr2 = length arr"
    using Suc.prems nj by (simp_all add: set_swap)
  have un: "shuffle_from (Suc i) arr s = shuffle_from i ?arr2 s'"
    by (simp only: shuffle_from.simps Let_def r prod.case)
  have "i < length ?arr2" using Suc.prems by simp
  from Suc.IH [OF this, of s'] sw show ?case unfolding un by simp
qed

lemma shuffleInPlace_set: "set (fst (shuffleInPlace arr s)) = set arr"
proof (cases arr)
  case Nil
  then show ?thesis by (simp add: shuffleInPlace_def)
next
  case (Cons a as)
  then have "length arr - 1 < length arr" by simp
  from shuffle_from_set [OF this] show ?thesis by (simp add: shuffleInPlace_def)
qed

lemma db_write_perimeter:
  assumes "hub_open levelId db" and "(x, y, dir) \<in> set hubPerimeter \<or> (x, y, dir) = (1, 0, S) \<or> (x, y, dir) = (0, 1, E)"
  shows "hub_open levelId (db_write db levelId x y dir et meta now)"
  using assms
  by (auto simp: hub_open_def kind_at_def db_write_def writeEdgeBothWays_map mirror_def hubPerimeter_def)

lemma new_id_edges: "db_edges (snd (new_id ctx pre db)) = db_edges db"
  by (simp add: new_id_def)

lemma new_id_hub_open: "hub_open levelId (snd (new_id ctx pre db)) = hub_open levelId db"
  by (simp add: hub_open_def kind_at_def new_id_edges)

lemma seed_hub_wall_open:
  "hub_open levelId db \<Longrightarrow> p \<in> set hubPerimeter \<Longrightarrow> hub_open levelId (seed_hub_wall levelId now p db)"
  by (cases p) (auto simp: seed_hub_wall_def db_write_perimeter split: option.split)

lemma fold_seed_hub_wall_open:
  "hub_open levelId db \<Longrightarrow> set ps \<subseteq> set hubPerimeter \<Longrightarrow> hub_open levelId (fold (seed_hub_wall levelId now) ps db)"
  by (induction ps arbitrary: db) (simp_all add: seed_hub_wall_open)

lemma seed_hub_door_open:
  assumes "hub_open levelId (fst acc)" and "c \<in> set hubPerimeter"
  shows "hub_open levelId (fst (seed_hub_door ctx levelId now doorCount c acc))"
proof -
  obtain x y dir where c: "c = (x, y, dir)" by (cases c)
  obtain db written where acc: "acc = (db, written)" by (cases acc)
  obtain did db1 where ni: "new_id ctx ''d'' db = (did, db1)" by (cases "new_id ctx ''d'' db")
  from new_id_hub_open [of levelId ctx "''d''" db] ni assms acc have "hub_open levelId db1" by simp
  from db_write_perimeter [OF this] assms(2) c
  have "hub_open levelId (db_write db1 levelId x y dir DoorUnlocked \<lparr>doorId = Some did, frontier = Some True\<rparr> now)"
    by simp
  with assms acc show ?thesis
    by (simp add: seed_hub_door_def c ni split: option.split)
qed

lemma fold_seed_hub_door_open:
  "hub_open levelId (fst acc) \<Longrightarrow> set cs \<subseteq> set hubPerimeter \<Longrightarrow>
   hub_open levelId (fst (fold (seed_hub_door ctx levelId now doorCount) cs acc))"
  by (induction cs arbitrary: acc) (simp_all add: seed_hub_door_open)

lemma ensureSeedHub_open: "hub_open levelId (ensureSeedHub ctx now db levelId)"
proof -
  define db1 where "db1 = db\<lparr>db_cells := fold (seed_hub_cell levelId) hubCells (db_cells db)\<rparr>"
  define db2 where "db2 = db_write db1 levelId 0 0 E Open no_meta now"
  define db3 where "db3 = db_write db2 levelId 0 0 S Open no_meta now"
  define db4 where "db4 = db_write db3 levelId 1 0 S Open no_meta now"
  define db5 where "db5 = db_write db4 levelId 0 1 E Open no_meta now"
  define db6 where "db6 = fold (seed_hub_wall levelId now) hubPerimeter db5"
  define r0 where "r0 = Rng32_new (hashU32 [PNum (ctx_seed ctx), PStr (ctx_worldId ctx), PNum levelId, PStr ''hub_doors_v1''])"
  obtain candidates r1 where sh: "shuffleInPlace hubPerimeter r0 = (candidates, r1)"
    by (cases "shuffleInPlace hubPerimeter r0")
  obtain roll r2 where fl: "float01 r1 = (roll, r2)" by (cases "float01 r1")
  define doorCount :: nat where "doorCount = (if frac_lt roll 35 100 then 2 else 1)"
  obtain db7 written where fd: "fold (seed_hub_door ctx levelId now doorCount) candidates (db6, 0) = (db7, written)"
    by (cases "fold (seed_hub_door ctx levelId now doorCount) candidates (db6, 0)")
  obtain did db8 where ni: "new_id ctx ''d'' db7 = (did, db8)" by (cases "new_id ctx ''d'' db7")
  have e: "ensureSeedHub ctx now db levelId =
      (if written = 0 then db_write db8 levelId 1 0 E DoorUnlocked \<lparr>doorId = Some did, frontier = Some True\<rparr> now else db7)"
    unfolding ensureSeedHub_def Let_def db1_def [symmetric] db2_def [symmetric] db3_def [symmetric]
      db4_def [symmetric] db5_def [symmetric] db6_def [symmetric] r0_def [symmetric] sh prod.case fl
      doorCount_def [symmetric] fd ni
    by simp
  have o3: "hub_open levelId db3"
    by (simp add: hub_open_def kind_at_def db3_def db2_def db_write_def writeEdgeBothWays_map mirror_def)
  then have "hub_open levelId db5"
    unfolding db5_def db4_def by (intro db_write_perimeter) simp_all
  then have o6: "hub_open levelId db6"
    unfolding db6_def by (rule fold_seed_hub_wall_open) simp
  from shuffleInPlace_set [of hubPerimeter r0] sh have "set candidates \<subseteq> set hubPerimeter" by simp
  from fold_seed_hub_door_open [of levelId "(db6, 0)", OF _ this] o6 fd have o7: "hub_open levelId db7"
    by (metis fst_conv)
  with new_id_hub_open [of levelId ctx "''d''" db7] ni have "hub_open levelId db8" by simp
  then have "hub_open levelId (db_write db8 levelId 1 0 E DoorUnlocked \<lparr>doorId = Some did, frontier = Some True\<rparr> now)"
    by (rule db_write_perimeter) (simp add: hubPerimeter_def)
  with o7 show ?thesis unfolding e by simp
qed

lemma canTraverse_db_hub:
  assumes "moveDirToAbs face moveDir = E \<or> moveDirToAbs face moveDir = S"
  shows "fst (canTraverse_db ctx expand now db levelId 0 0 face moveDir)"
proof -
  let ?d = "moveDirToAbs face moveDir"
  let ?db1 = "ensureSeedHub ctx now db levelId"
  from ensureSeedHub_open [of levelId ctx now db] assms
  have "kind_at ?db1 (levelId, 0, 0, ?d) = Some Open" by (auto simp: hub_open_def)
  then obtain row where row: "db_edges ?db1 (levelId, 0, 0, ?d) = Some row" "row_edge_type row = Open"
    by (auto simp: kind_at_def)
  then have "fst (getEdgeOverride_db ctx expand now db levelId 0 0 ?d Movement)
      = Some \<lparr>edgeType = Open, lockDifficulty = None, keyMonsterEntityId = None, defaultStateOnReset = False\<rparr>"
    by (simp add: getEdgeOverride_db_def Let_def)
  then show ?thesis
    by (simp add: canTraverse_db_def canTraverse_lazy_def canTraverseAbs_lazy_def edgeType_lazy_def
        traversable_def Let_def)
qed

subsection \<open>Determinism of the chunk generator\<close>


subsection \<open>Edge symmetry\<close>




subsection \<open>Chunk boundaries\<close>

text \<open>
  C5. For an edge that crosses a chunk boundary (local coordinate 63 with E or S, local
  coordinate 0 with W or N) with no override on either side, \<^verbatim>\<open>edgeType\<close> answers
  open when the orthogonal local coordinate is 0 mod 8 and wall otherwise, and the query
  from the cell across the boundary answers the same. No hub-forced edge is such an
  edge. The local coordinate is the Euclidean remainder: it lies in [0, 63] and
  x = 64 * floorDiv x 64 + local x, for negative x too.
\<close>

theorem chunk_boundary_rule:
  assumes "ov levelId x y dir = None"
    and "ov levelId (fst (step x y dir)) (snd (step x y dir)) (oppositeOf dir) = None"
    and "(dir = E \<and> mod_ts x CHUNK_SIZE = 63) \<or> (dir = S \<and> mod_ts y CHUNK_SIZE = 63)
         \<or> (dir = W \<and> mod_ts x CHUNK_SIZE = 0) \<or> (dir = N \<and> mod_ts y CHUNK_SIZE = 0)"
  shows "edgeType_gen seed ov levelId x y dir
           = Some (if (if dir = E \<or> dir = W then mod_ts y CHUNK_SIZE else mod_ts x CHUNK_SIZE) mod 8 = 0
                   then Open else Wall)
       \<and> edgeType_gen seed ov levelId (fst (step x y dir)) (snd (step x y dir)) (oppositeOf dir)
           = edgeType_gen seed ov levelId x y dir
       \<and> \<not> hub_forced x y dir
       \<and> mod_ts x CHUNK_SIZE = x mod 64 \<and> 0 \<le> mod_ts x CHUNK_SIZE \<and> mod_ts x CHUNK_SIZE \<le> 63
       \<and> x = CHUNK_SIZE * floorDiv x CHUNK_SIZE + mod_ts x CHUNK_SIZE"
proof -
  obtain chunk where c: "generateChunkMaze seed levelId (x div 64) (y div 64) = Some chunk"
    using generateChunkMaze_returns by blast
  note l = edgeType_gen_plain [where ov = ov and levelId = levelId and x = x and y = y and dir = dir, OF assms(1) c]
  from assms(3) have b: "(dir = E \<and> x mod 64 = 63) \<or> (dir = S \<and> y mod 64 = 63)
         \<or> (dir = W \<and> x mod 64 = 0) \<or> (dir = N \<and> y mod 64 = 0)"
    by (simp add: mod_ts_64)
  then have nh: "\<not> hub_forced x y dir" by (auto simp: hub_forced_def)
  have k: "edgeType_gen seed ov levelId x y dir
           = Some (if (if dir = E \<or> dir = W then mod_ts y CHUNK_SIZE else mod_ts x CHUNK_SIZE) mod 8 = 0
                   then Open else Wall)"
    unfolding l mod_ts_64 using b nh by (auto simp: boundary_kind_def)
  have r: "0 \<le> x mod 64" "x mod 64 \<le> 63" using pos_mod_bound [of 64 x] by simp_all
  have e1: "mod_ts x CHUNK_SIZE = x mod 64" by (rule mod_ts_64)
  have e2: "x = CHUNK_SIZE * floorDiv x CHUNK_SIZE + mod_ts x CHUNK_SIZE"
    unfolding e1 by (simp add: floorDiv_def CHUNK_SIZE_def)
  have e3: "0 \<le> mod_ts x CHUNK_SIZE" "mod_ts x CHUNK_SIZE \<le> 63"
    unfolding e1 using r by simp_all
  note mi = edgeType_gen_mirror [where ov = ov, OF assms(1) assms(2), of seed]
  from k mi nh e1 e2 e3 show ?thesis by blast
qed

theorem chunk_boundary_rule_witness:
  "edgeType_gen 777 ov_none_gen 1 (- 1) 8 E = Some Open
   \<and> edgeType_gen 777 ov_none_gen 1 0 8 W = Some Open
   \<and> edgeType_gen 777 ov_none_gen 1 (- 1) 9 E = Some Wall
   \<and> edgeType_gen 777 ov_none_gen 1 0 9 W = Some Wall
   \<and> mod_ts (- 1) CHUNK_SIZE = 63"
proof -
  have m: "mod_ts (- 1) CHUNK_SIZE = 63" "mod_ts 8 CHUNK_SIZE = 8" "mod_ts 9 CHUNK_SIZE = 9"
    by (simp_all add: mod_ts_def js_rem_def CHUNK_SIZE_def)
  from chunk_boundary_rule [where ov = ov_none_gen and levelId = 1 and x = "- 1" and y = 8 and dir = E and seed = 777]
    chunk_boundary_rule [where ov = ov_none_gen and levelId = 1 and x = "- 1" and y = 9 and dir = E and seed = 777]
  show ?thesis by (simp add: m ov_none_gen_def)
qed

subsection \<open>Hub openness\<close>

text \<open>
  C4. For every level the east and the south edge of the hub cell (0, 0) are
  traversable. In the generator engine this holds unless an override at that edge
  forbids it (the override has a kind that is not traversable). In the lazy-overlay
  engine on the provider with the seed hub it holds for every database: the movement
  query seeds the hub, which writes both edges as open.
\<close>

theorem hub_openness:
  "((case ov levelId 0 0 E of None \<Rightarrow> True | Some ovr \<Rightarrow> traversable (edgeType ovr))
       \<longrightarrow> canTraverse_gen seed ov levelId 0 0 E = Some True)
   \<and> ((case ov levelId 0 0 S of None \<Rightarrow> True | Some ovr \<Rightarrow> traversable (edgeType ovr))
       \<longrightarrow> canTraverse_gen seed ov levelId 0 0 S = Some True)
   \<and> fst (canTraverse_db ctx expand now db levelId 0 0 E F)
   \<and> fst (canTraverse_db ctx expand now db levelId 0 0 S F)"
  using canTraverse_db_hub [of E F ctx expand now db levelId] canTraverse_db_hub [of S F ctx expand now db levelId]
  by (auto simp: canTraverse_gen_def edgeType_gen_def traversable_def split: option.splits)

theorem hub_openness_witness:
  "canTraverse_gen 777 ov_none_gen 3 0 0 E = Some True
   \<and> canTraverse_gen 777 (ov_all_gen DoorUnlocked) 3 0 0 S = Some True
   \<and> fst (canTraverse_db ctx0 (\<lambda>db levelId x y dir meta. db) 1000 db_empty 3 0 0 E F)"
  using hub_openness [where ov = ov_none_gen and levelId = 3 and seed = 777 and ctx = ctx0
      and expand = "\<lambda>db levelId x y dir meta. db" and now = 1000 and db = db_empty]
    hub_openness [where ov = "ov_all_gen DoorUnlocked" and levelId = 3 and seed = 777]
  by (simp add: ov_none_gen_def ov_all_gen_def ov_const_def traversable_def)

subsection \<open>Sequence numbers\<close>

lemma move_gen_returns: "\<exists>r. move_gen seed ov now player cooldowns = Some r"
proof -
  obtain e where "edgeType_gen seed ov (pl_levelId player) (pl_x player) (pl_y player) (pl_face player) = Some e"
    using edgeType_gen_returns by blast
  then show ?thesis
    by (simp add: move_gen_def canTraverse_gen_def Let_def split: prod.split)
qed

lemma handle_move_abs_returns: "\<exists>out. handle_move_abs env ovg st active sq d = Some out"
proof -
  let ?md = "moveDirToAbs (ac_face active) d"
  let ?nf = "(case d of Abs a \<Rightarrow> a | F \<Rightarrow> ac_face active | B \<Rightarrow> ac_face active)"
  have res: "(case d of F \<Rightarrow> (ac_face active, ac_face active)
               | B \<Rightarrow> (oppositeOf (ac_face active), ac_face active)
               | Abs a \<Rightarrow> (a, a)) = (?md, ?nf)"
    by (cases d) simp_all
  obtain r disc where "move_gen (env_seed env) ovg (env_dateNow env 1)
      \<lparr>pl_levelId = ac_levelId active, pl_x = ac_x active, pl_y = ac_y active,
        pl_face = ?md, pl_hp = ac_hp active\<rparr> (c_cooldowns st) = Some (r, disc)"
    using move_gen_returns by (metis surj_pair)
  then show ?thesis
    unfolding handle_move_abs_def Let_def res
    by (simp add: sendWorldState_def split: bool.split option.split)
qed

lemma handlers_keep_lastSeq:
  "c_lastSeq (h_state (handle_auth_rel env st t)) = c_lastSeq st"
  "c_lastSeq (h_state (handle_auth_abs env st t)) = c_lastSeq st"
  "c_lastSeq (h_state (handle_move_rel env ov st active sq d)) = c_lastSeq st"
  "c_lastSeq (h_state (handle_turn_cooldown env st active sq f)) = c_lastSeq st"
  "c_lastSeq (h_state (handle_turn_instant env st active sq f)) = c_lastSeq st"
  by (auto simp: handle_auth_rel_def handle_auth_abs_def handle_move_rel_def handle_turn_cooldown_def handle_turn_instant_def
      reply_only_def sendWorldState_def Let_def split: option.splits prod.splits bool.splits)

lemma handle_move_abs_keeps_lastSeq:
  "handle_move_abs env ovg st active sq d = Some out \<Longrightarrow> c_lastSeq (h_state out) = c_lastSeq st"
  by (auto simp: handle_move_abs_def reply_only_def sendWorldState_def Let_def
      split: option.splits prod.splits bool.splits if_splits)

lemma dispatch_rel_keeps_lastSeq:
  "c_lastSeq (h_state (dispatch_rel env ov st msg)) = c_lastSeq st"
  by (auto simp: dispatch_rel_def handlers_keep_lastSeq Let_def split: ClientBody.splits option.splits)

lemma dispatch_abs_keeps_lastSeq:
  "dispatch_abs env ovg st msg = Some out \<Longrightarrow> c_lastSeq (h_state out) = c_lastSeq st"
  by (auto simp: dispatch_abs_def handlers_keep_lastSeq handle_move_abs_keeps_lastSeq Let_def
      split: ClientBody.splits option.splits if_splits)

lemma dispatch_abs_returns: "\<exists>out. dispatch_abs env ovg st msg = Some out"
  using handle_move_abs_returns
  by (auto simp: dispatch_abs_def Let_def split: ClientBody.splits option.splits)

lemma on_message_rel_lastSeq:
  "c_lastSeq (h_state (on_message_rel env ov st f)) = c_lastSeq st
   \<or> c_lastSeq st < c_lastSeq (h_state (on_message_rel env ov st f))"
  by (auto simp: on_message_rel_def dispatch_rel_keeps_lastSeq split: option.splits sum.splits)

lemma on_message_abs_lastSeq:
  "on_message_abs env ovg st f = Some out \<Longrightarrow>
   c_lastSeq (h_state out) = c_lastSeq st \<or> c_lastSeq st < c_lastSeq (h_state out)"
  by (auto simp: on_message_abs_def split: option.splits sum.splits if_splits
      dest: dispatch_abs_keeps_lastSeq)

lemma accepted_rel_gt:
  "list_all (\<lambda>s. c_lastSeq st < s) (accepted_rel envs ov k st fs)"
proof (induction fs arbitrary: k st)
  case Nil
  then show ?case by simp
next
  case (Cons f fs)
  let ?out = "on_message_rel (envs k) ov st f"
  from on_message_rel_lastSeq [of "envs k" ov st f]
  have le: "c_lastSeq st \<le> c_lastSeq (h_state ?out)" by auto
  have "list_all (\<lambda>s. c_lastSeq (h_state ?out) < s) (accepted_rel envs ov (Suc k) (h_state ?out) fs)"
    by (rule Cons.IH)
  then have "list_all (\<lambda>s. c_lastSeq st < s) (accepted_rel envs ov (Suc k) (h_state ?out) fs)"
    using le by (auto simp: list_all_iff)
  with on_message_rel_lastSeq [of "envs k" ov st f] show ?case
    by (auto simp: Let_def)
qed

lemma accepted_rel_sorted:
  "sorted_wrt (<) (accepted_rel envs ov k st fs)"
proof (induction fs arbitrary: k st)
  case Nil
  then show ?case by simp
next
  case (Cons f fs)
  then show ?case
    using accepted_rel_gt [of "h_state (on_message_rel (envs k) ov st f)" envs ov "Suc k" fs]
    by (auto simp: Let_def list_all_iff)
qed

lemma accepted_abs_gt:
  "list_all (\<lambda>s. c_lastSeq st < s) (accepted_abs envs ovg k st fs)"
proof (induction fs arbitrary: k st)
  case Nil
  then show ?case by simp
next
  case (Cons f fs)
  show ?case
  proof (cases "on_message_abs (envs k) ovg st f")
    case None
    then show ?thesis by simp
  next
    case (Some out)
    from on_message_abs_lastSeq [OF Some]
    have le: "c_lastSeq st \<le> c_lastSeq (h_state out)" by auto
    have "list_all (\<lambda>s. c_lastSeq (h_state out) < s) (accepted_abs envs ovg (Suc k) (h_state out) fs)"
      by (rule Cons.IH)
    then have "list_all (\<lambda>s. c_lastSeq st < s) (accepted_abs envs ovg (Suc k) (h_state out) fs)"
      using le by (auto simp: list_all_iff)
    with on_message_abs_lastSeq [OF Some] Some show ?thesis
      by (auto simp: Let_def)
  qed
qed

lemma accepted_abs_sorted:
  "sorted_wrt (<) (accepted_abs envs ovg k st fs)"
proof (induction fs arbitrary: k st)
  case Nil
  then show ?case by simp
next
  case (Cons f fs)
  show ?case
  proof (cases "on_message_abs (envs k) ovg st f")
    case None
    then show ?thesis by simp
  next
    case (Some out)
    with Cons.IH [of "Suc k" "h_state out"] accepted_abs_gt [of "h_state out" envs ovg "Suc k" fs]
    show ?thesis by (auto simp: Let_def list_all_iff)
  qed
qed

lemma parse_move_frame: "safeParseClient (move_frame sq ''E'') = Inr \<lparr>seq = sq, body = MoveMsg (Abs E)\<rparr>"
  by (simp add: safeParseClient_def move_frame_def parseBody_def)

text \<open>
  C9. For every inbound client message (a frame that \<^verbatim>\<open>safeParseClient\<close> accepts), in
  both handlers: when its seq is not greater than the connection's \<^verbatim>\<open>lastSeq\<close>, the
  one reply is the error bad_seq and the connection state is unchanged; otherwise the
  message is dispatched on the state with \<^verbatim>\<open>lastSeq\<close> set to its seq, and the state
  the handler leaves has that \<^verbatim>\<open>lastSeq\<close>. The initial \<^verbatim>\<open>lastSeq\<close> is -1, and the
  seq values a connection accepts, in order, are strictly increasing and above -1.
\<close>

theorem seq_check:
  assumes "safeParseClient j = Inr msg"
  shows "(seq msg \<le> c_lastSeq st \<longrightarrow>
            on_message_rel env ov st (Some j)
              = reply_only st (ErrorMsg ''bad_seq'' ''seq must increase'' (Some (seq msg)))
            \<and> on_message_abs env ovg st (Some j)
              = Some (reply_only st (ErrorMsg ''bad_seq'' ''seq must increase'' (Some (seq msg))))
            \<and> h_state (reply_only st (ErrorMsg ''bad_seq'' ''seq must increase'' (Some (seq msg)))) = st)
       \<and> (c_lastSeq st < seq msg \<longrightarrow>
            on_message_rel env ov st (Some j) = dispatch_rel env ov (st\<lparr>c_lastSeq := seq msg\<rparr>) msg
            \<and> on_message_abs env ovg st (Some j) = dispatch_abs env ovg (st\<lparr>c_lastSeq := seq msg\<rparr>) msg
            \<and> c_lastSeq (h_state (on_message_rel env ov st (Some j))) = seq msg
            \<and> (\<exists>out. on_message_abs env ovg st (Some j) = Some out \<and> c_lastSeq (h_state out) = seq msg))
       \<and> c_lastSeq initial_state = - 1
       \<and> sorted_wrt (<) (accepted_rel envs ov 0 initial_state fs)
       \<and> list_all (\<lambda>s. - 1 < s) (accepted_rel envs ov 0 initial_state fs)
       \<and> sorted_wrt (<) (accepted_abs envs ovg 0 initial_state fs)
       \<and> list_all (\<lambda>s. - 1 < s) (accepted_abs envs ovg 0 initial_state fs)"
proof -
  have i: "c_lastSeq initial_state = - 1" by (simp add: initial_state_def)
  have low: "seq msg \<le> c_lastSeq st \<longrightarrow>
            on_message_rel env ov st (Some j)
              = reply_only st (ErrorMsg ''bad_seq'' ''seq must increase'' (Some (seq msg)))
            \<and> on_message_abs env ovg st (Some j)
              = Some (reply_only st (ErrorMsg ''bad_seq'' ''seq must increase'' (Some (seq msg))))
            \<and> h_state (reply_only st (ErrorMsg ''bad_seq'' ''seq must increase'' (Some (seq msg)))) = st"
    using assms by (simp add: on_message_rel_def on_message_abs_def)
  have high: "c_lastSeq st < seq msg \<longrightarrow>
            on_message_rel env ov st (Some j) = dispatch_rel env ov (st\<lparr>c_lastSeq := seq msg\<rparr>) msg
            \<and> on_message_abs env ovg st (Some j) = dispatch_abs env ovg (st\<lparr>c_lastSeq := seq msg\<rparr>) msg
            \<and> c_lastSeq (h_state (on_message_rel env ov st (Some j))) = seq msg
            \<and> (\<exists>out. on_message_abs env ovg st (Some j) = Some out \<and> c_lastSeq (h_state out) = seq msg)"
  proof
    assume lt: "c_lastSeq st < seq msg"
    obtain out where o: "dispatch_abs env ovg (st\<lparr>c_lastSeq := seq msg\<rparr>) msg = Some out"
      using dispatch_abs_returns by blast
    from dispatch_abs_keeps_lastSeq [OF o] have "c_lastSeq (h_state out) = seq msg" by simp
    with lt assms o show "on_message_rel env ov st (Some j) = dispatch_rel env ov (st\<lparr>c_lastSeq := seq msg\<rparr>) msg
            \<and> on_message_abs env ovg st (Some j) = dispatch_abs env ovg (st\<lparr>c_lastSeq := seq msg\<rparr>) msg
            \<and> c_lastSeq (h_state (on_message_rel env ov st (Some j))) = seq msg
            \<and> (\<exists>out. on_message_abs env ovg st (Some j) = Some out \<and> c_lastSeq (h_state out) = seq msg)"
      by (simp add: on_message_rel_def on_message_abs_def dispatch_rel_keeps_lastSeq)
  qed
  from accepted_rel_gt [of initial_state envs ov 0 fs] accepted_abs_gt [of initial_state envs ovg 0 fs]
  have gt: "list_all (\<lambda>s. - 1 < s) (accepted_rel envs ov 0 initial_state fs)"
    "list_all (\<lambda>s. - 1 < s) (accepted_abs envs ovg 0 initial_state fs)"
    by (simp_all add: i)
  from low high i gt accepted_rel_sorted [of envs ov 0 initial_state fs]
    accepted_abs_sorted [of envs ovg 0 initial_state fs]
  show ?thesis by blast
qed

theorem seq_check_witness:
  "h_replies (on_message_rel (env_at 1000) (ov_all Open) st_authed (Some (move_frame 0 ''E'')))
     = [ErrorMsg ''bad_seq'' ''seq must increase'' (Some 0)]
   \<and> h_state (on_message_rel (env_at 1000) (ov_all Open) st_authed (Some (move_frame 0 ''E''))) = st_authed
   \<and> c_lastSeq (h_state (on_message_rel (env_at 1000) (ov_all Open) st_authed (Some (move_frame 1 ''E'')))) = 1"
proof -
  let ?m0 = "\<lparr>seq = 0, body = MoveMsg (Abs E)\<rparr>" and ?m1 = "\<lparr>seq = 1, body = MoveMsg (Abs E)\<rparr>"
  have le: "seq ?m0 \<le> c_lastSeq st_authed" and lt: "c_lastSeq st_authed < seq ?m1"
    by (simp_all add: st_authed_def)
  from seq_check [OF parse_move_frame [of 0], where st = st_authed and env = "env_at 1000" and ov = "ov_all Open"] le
  have a: "on_message_rel (env_at 1000) (ov_all Open) st_authed (Some (move_frame 0 ''E''))
      = reply_only st_authed (ErrorMsg ''bad_seq'' ''seq must increase'' (Some (seq ?m0)))"
    by blast
  from seq_check [OF parse_move_frame [of 1], where st = st_authed and env = "env_at 1000" and ov = "ov_all Open"] lt
  have b: "c_lastSeq (h_state (on_message_rel (env_at 1000) (ov_all Open) st_authed (Some (move_frame 1 ''E''))))
      = seq ?m1"
    by blast
  show ?thesis by (simp add: a b)
qed

end
